theory Spec2Isabelle
  imports Main
begin

section \<open>Strings as Python sees them\<close>

text \<open>
  A Python \<open>str\<close> is modelled as a \<open>string\<close> whose characters are the code points
  below 256.  \<open>str.strip()\<close>, \<open>str.isspace()\<close> and the regular-expression class
  \<open>\s\<close> (on \<open>str\<close> patterns) all use the same whitespace test; on this range it
  accepts exactly the twelve characters below.
\<close>

definition is_space :: "char \<Rightarrow> bool" where
  "is_space c = (c \<in> set [CHR 0x09, CHR 0x0A, CHR 0x0B, CHR 0x0C, CHR 0x0D,
                           CHR 0x1C, CHR 0x1D, CHR 0x1E, CHR 0x1F, CHR 0x20,
                           CHR 0x85, CHR 0xA0])"

text \<open>\<open>s.strip()\<close>: leading and trailing whitespace removed.\<close>

definition strip :: "string \<Rightarrow> string" where
  "strip s = rev (dropWhile is_space (rev (dropWhile is_space s)))"

text \<open>\<open>s.strip(d)\<close> for a one-character argument \<open>d\<close>.\<close>

definition strip_char :: "char \<Rightarrow> string \<Rightarrow> string" where
  "strip_char d s = rev (dropWhile (\<lambda>c. c = d) (rev (dropWhile (\<lambda>c. c = d) s)))"

text \<open>
  \<open>s.split(d)\<close> for a one-character separator: the result is never empty, and
  \<open>''''.split(d)\<close> is the list holding the empty string.
\<close>

fun split_on :: "char \<Rightarrow> string \<Rightarrow> string list" where
  "split_on d [] = [[]]"
| "split_on d (c # cs) =
     (if c = d then [] # split_on d cs
      else (case split_on d cs of
              [] \<Rightarrow> [[c]]
            | seg # segs \<Rightarrow> (c # seg) # segs))"

text \<open>\<open>sub in s\<close> for strings: \<open>sub\<close> occurs in \<open>s\<close> as a contiguous substring.\<close>

fun starts_with :: "string \<Rightarrow> string \<Rightarrow> bool" where
  "starts_with [] s = True"
| "starts_with (p # ps) [] = False"
| "starts_with (p # ps) (c # cs) = (p = c \<and> starts_with ps cs)"

fun in_str :: "string \<Rightarrow> string \<Rightarrow> bool" where
  "in_str sub [] = starts_with sub []"
| "in_str sub (c # cs) = (starts_with sub (c # cs) \<or> in_str sub cs)"

text \<open>
  Truthiness of an optional string: \<open>None\<close> and the empty string are false.
  \<open>a or b\<close> evaluates to \<open>a\<close> when \<open>a\<close> is true and to \<open>b\<close> otherwise.
\<close>

definition truthy :: "string option \<Rightarrow> bool" where
  "truthy x = (case x of None \<Rightarrow> False | Some s \<Rightarrow> s \<noteq> [])"

definition py_or :: "string option \<Rightarrow> string option \<Rightarrow> string option" where
  "py_or a b = (if truthy a then a else b)"

section \<open>Tenant id from a request path\<close>

text \<open>
  \<^verbatim>\<open>
  def get_bot_id_from_path(path: str) -> str:
      if not path:
          return ""
      return path.strip('/').split('/')[-1]
  \<close>
  The path is \<open>None\<close> or a string.  \<open>split\<close> never returns the empty list, so the
  index \<open>[-1]\<close> is always in range.
\<close>

definition get_bot_id_from_path :: "string option \<Rightarrow> string" where
  "get_bot_id_from_path path =
     (if \<not> truthy path then []
      else (case path of
              None \<Rightarrow> []
            | Some p \<Rightarrow> last (split_on CHR ''/'' (strip_char CHR ''/'' p))))"

section \<open>The tag patterns\<close>

text \<open>
  The extractor uses two regular expressions per key \<open>KEY\<close>, one to capture the
  value and one to delete the tag:
  \<^verbatim>\<open>
  re.search(r'\[KEY:\s*([^\]]+)\]', message)
  re.sub(r'\[KEY:[^\]]*\]\s*', '', message)
  \<close>
  Both begin with the literal \<open>[KEY:\<close>.
\<close>

definition tag_prefix :: "string \<Rightarrow> string" where
  "tag_prefix key = ''['' @ key @ '':''"

text \<open>
  A greedy character class followed by the literal \<open>]\<close>, matched at the start of
  \<open>r\<close>: the class first takes \<open>n\<close> characters, and gives them back one at a time
  until a \<open>]\<close> follows.  The result is the number of characters the class keeps.
\<close>

fun try_close :: "nat \<Rightarrow> string \<Rightarrow> nat option" where
  "try_close 0 r = (if starts_with '']'' r then Some 0 else None)"
| "try_close (Suc n) r =
     (if starts_with '']'' (drop (Suc n) r) then Some (Suc n) else try_close n r)"

definition non_bracket_run :: "string \<Rightarrow> nat" where
  "non_bracket_run r = length (takeWhile (\<lambda>c. c \<noteq> CHR '']'') r)"

text \<open>\<open>([^\]]+)\]\<close> at the start of \<open>r\<close>: the group, which has at least one character.\<close>

definition capture_value :: "string \<Rightarrow> string option" where
  "capture_value r =
     (case try_close (non_bracket_run r) r of
        None \<Rightarrow> None
      | Some 0 \<Rightarrow> None
      | Some (Suc n) \<Rightarrow> Some (take (Suc n) r))"

text \<open>
  \<open>\s*([^\]]+)\]\<close> at the start of \<open>r\<close>, when \<open>\s*\<close> has taken \<open>k\<close> characters: the
  rest of the pattern is tried there, and on failure \<open>\s*\<close> gives one character back.
\<close>

fun capture_ws :: "nat \<Rightarrow> string \<Rightarrow> string option" where
  "capture_ws 0 r = capture_value r"
| "capture_ws (Suc k) r =
     (case capture_value (drop (Suc k) r) of
        Some v \<Rightarrow> Some v
      | None \<Rightarrow> capture_ws k r)"

text \<open>The capturing pattern matched at the start of \<open>s\<close>: group 1.\<close>

definition match_capture :: "string \<Rightarrow> string \<Rightarrow> string option" where
  "match_capture key s =
     (if starts_with (tag_prefix key) s
      then (let r = drop (length (tag_prefix key)) s
            in capture_ws (length (takeWhile is_space r)) r)
      else None)"

text \<open>
  The deleting pattern matched at the start of \<open>s\<close>: what follows the match, the
  greedy \<open>\s*\<close> after the bracket included in the match.
\<close>

definition match_delete :: "string \<Rightarrow> string \<Rightarrow> string option" where
  "match_delete key s =
     (if starts_with (tag_prefix key) s
      then (let r = drop (length (tag_prefix key)) s
            in (case try_close (non_bracket_run r) r of
                  None \<Rightarrow> None
                | Some n \<Rightarrow> Some (dropWhile is_space (drop (Suc n) r))))
      else None)"

text \<open>\<open>re.search\<close>: the match at the leftmost position that has one.\<close>

fun re_search :: "(string \<Rightarrow> 'a option) \<Rightarrow> string \<Rightarrow> 'a option" where
  "re_search m [] = m []"
| "re_search m (c # cs) =
     (case m (c # cs) of
        Some g \<Rightarrow> Some g
      | None \<Rightarrow> re_search m cs)"

lemma match_delete_shorter:
  "match_delete key s = Some rest \<Longrightarrow> length rest < length s"
proof -
  assume a: "match_delete key s = Some rest"
  have le: "length (dropWhile is_space xs) \<le> length xs" for xs
    by (rule length_dropWhile_le)
  from a obtain n where
    r: "rest = dropWhile is_space (drop (Suc n) (drop (length (tag_prefix key)) s))"
    and st: "starts_with (tag_prefix key) s"
    by (auto simp: match_delete_def Let_def split: if_splits option.splits)
  have "s \<noteq> []"
    using st by (cases s) (simp_all add: tag_prefix_def)
  then have "length (drop (Suc n) (drop (length (tag_prefix key)) s)) < length s"
    by (cases s) simp_all
  with le [of "drop (Suc n) (drop (length (tag_prefix key)) s)"] r show ?thesis
    by simp
qed

text \<open>
  \<open>re.sub(pattern, '', s)\<close> for the deleting pattern of \<open>key\<close>: scanning from the
  left, a match is dropped and the scan goes on after it; where there is no match
  the character is kept.
\<close>

function sub_tag :: "string \<Rightarrow> string \<Rightarrow> string" where
  "sub_tag key [] = []"
| "sub_tag key (c # cs) =
     (case match_delete key (c # cs) of
        Some rest \<Rightarrow> sub_tag key rest
      | None \<Rightarrow> c # sub_tag key cs)"
  by pat_completeness auto
termination
  by (relation "measure (\<lambda>(key, s). length s)")
     (auto dest: match_delete_shorter)

section \<open>The context extractor\<close>

text \<open>
  \<^verbatim>\<open>
  def extract_context_from_message(message: str) -> dict:
      context = {'session_id': None, 'path': None, 'bot_id': None,
                 'clean_message': message}
      session_match = re.search(r'\[SESSION_ID:\s*([^\]]+)\]', message)
      if session_match:
          context['session_id'] = session_match.group(1).strip()
      ... (the same for PATH and BOT_ID)
      clean_message = re.sub(r'\[SESSION_ID:[^\]]*\]\s*', '', message)
      clean_message = re.sub(r'\[PATH:[^\]]*\]\s*', '', clean_message)
      clean_message = re.sub(r'\[BOT_ID:[^\]]*\]\s*', '', clean_message)
      context['clean_message'] = clean_message.strip()
      return context
  \<close>
\<close>

record extracted_context =
  ctx_session_id :: "string option"
  ctx_path :: "string option"
  ctx_bot_id :: "string option"
  clean_message :: string

definition tag_value :: "string \<Rightarrow> string \<Rightarrow> string option" where
  "tag_value key message = map_option strip (re_search (match_capture key) message)"

definition extract_context_from_message :: "string \<Rightarrow> extracted_context" where
  "extract_context_from_message message =
     \<lparr> ctx_session_id = tag_value ''SESSION_ID'' message,
       ctx_path = tag_value ''PATH'' message,
       ctx_bot_id = tag_value ''BOT_ID'' message,
       clean_message =
         strip (sub_tag ''BOT_ID'' (sub_tag ''PATH'' (sub_tag ''SESSION_ID'' message))) \<rparr>"

text \<open>
  The gate every tool puts before the extractor:
  \<^verbatim>\<open>query and ('[SESSION_ID:' in query or '[PATH:' in query or '[BOT_ID:' in query)\<close>
\<close>

definition has_tag_prefix :: "string \<Rightarrow> bool" where
  "has_tag_prefix query =
     (query \<noteq> [] \<and>
      (in_str ''[SESSION_ID:'' query \<or> in_str ''[PATH:'' query \<or> in_str ''[BOT_ID:'' query))"

section \<open>Results, faults and configuration\<close>

text \<open>
  A raised exception is a value.  \<open>Exception d\<close> is an instance of \<open>Exception\<close> whose
  \<open>str(e)\<close> is \<open>d\<close>; \<open>Unprintable raised\<close> is an instance of \<open>Exception\<close> whose
  \<open>str(e)\<close> raises \<open>raised\<close>; \<open>BaseException name\<close> is an exception outside the class
  \<open>Exception\<close> (\<open>KeyboardInterrupt\<close>, \<open>SystemExit\<close>, \<open>CancelledError\<close>).
\<close>

datatype exn = Exception string | Unprintable exn | BaseException string

fun str_exn :: "exn \<Rightarrow> exn + string" where
  "str_exn (Exception d) = Inr d"
| "str_exn (Unprintable raised) = Inl raised"
| "str_exn (BaseException name) = Inr name"

fun is_Exception :: "exn \<Rightarrow> bool" where
  "is_Exception (Exception d) = True"
| "is_Exception (Unprintable raised) = True"
| "is_Exception (BaseException name) = False"

text \<open>
  Every tool has the shape
  \<^verbatim>\<open>
  try:
      ... return <result>
  except Exception as e:
      return <handler of str(e)>
  \<close>
  The clause catches the instances of \<open>Exception\<close> only, and \<open>str(e)\<close> is evaluated
  inside the handler, where nothing catches what it raises.  The outcome of a call is
  the returned string, or the exception that leaves the tool.
\<close>

definition except_Exception :: "(string \<Rightarrow> string) \<Rightarrow> exn + string \<Rightarrow> exn + string" where
  "except_Exception handler outcome =
     (case outcome of
        Inr result \<Rightarrow> Inr result
      | Inl e \<Rightarrow>
          if is_Exception e
          then (case str_exn e of
                  Inl raised \<Rightarrow> Inl raised
                | Inr d \<Rightarrow> Inr (handler d))
          else Inl e)"

text \<open>\<open>str(n)\<close> for an integer: decimal digits, with a minus sign when negative.\<close>

fun str_nat :: "nat \<Rightarrow> string" where
  "str_nat n =
     (if n < 10 then [''0123456789'' ! n]
      else str_nat (n div 10) @ [''0123456789'' ! (n mod 10)])"

declare str_nat.simps [simp del]

definition str_int :: "int \<Rightarrow> string" where
  "str_int i = (if i < 0 then ''-'' @ str_nat (nat (- i)) else str_nat (nat i))"

text \<open>\<open>sep.join(xs)\<close>.\<close>

fun join :: "string \<Rightarrow> string list \<Rightarrow> string" where
  "join sep [] = []"
| "join sep [x] = x"
| "join sep (x # y # ys) = x @ sep @ join sep (y # ys)"

text \<open>
  \<open>json.dumps\<close> of a dictionary whose values are strings and booleans, with the
  default separators and \<open>ensure_ascii\<close>: a string is quoted, the quote, the backslash
  and the named control characters are escaped with a backslash, and every other
  character outside the range from space to tilde is written \<open>\u00xx\<close>.
\<close>

datatype json = JStr string | JBool bool

definition hex_digit :: "nat \<Rightarrow> char" where
  "hex_digit n = ''0123456789abcdef'' ! n"

definition json_escape_char :: "char \<Rightarrow> string" where
  "json_escape_char c =
     (if c = CHR 0x22 then [CHR 0x5C, CHR 0x22]
      else if c = CHR 0x5C then [CHR 0x5C, CHR 0x5C]
      else if c = CHR 0x0A then [CHR 0x5C, CHR ''n'']
      else if c = CHR 0x0D then [CHR 0x5C, CHR ''r'']
      else if c = CHR 0x09 then [CHR 0x5C, CHR ''t'']
      else if c = CHR 0x08 then [CHR 0x5C, CHR ''b'']
      else if c = CHR 0x0C then [CHR 0x5C, CHR ''f'']
      else if (of_char c :: nat) < 32 \<or> 126 < (of_char c :: nat)
      then [CHR 0x5C, CHR ''u'', CHR ''0'', CHR ''0'',
            hex_digit (of_char c div 16), hex_digit (of_char c mod 16)]
      else [c])"

definition json_string :: "string \<Rightarrow> string" where
  "json_string s = [CHR 0x22] @ concat (map json_escape_char s) @ [CHR 0x22]"

fun json_value :: "json \<Rightarrow> string" where
  "json_value (JStr s) = json_string s"
| "json_value (JBool b) = (if b then ''true'' else ''false'')"

definition json_dumps :: "(string \<times> json) list \<Rightarrow> string" where
  "json_dumps d =
     ''{'' @ join '', '' (map (\<lambda>(k, v). json_string k @ '': '' @ json_value v) d) @ ''}''"

text \<open>
  The configuration module is not part of the modelled source; its four URL
  templates are parameters.  A template is a string, or \<open>None\<close> when the setting has
  no value.
\<close>

record config =
  FORM_URL_1 :: "string option"
  FORM_URL_2 :: "string option"
  cancelAppointmentFormUrl :: "string option"
  rescheduleAppointmentFormUrl :: "string option"

text \<open>A configuration for the examples: one template has a query string already.\<close>

definition sample_config :: config where
  "sample_config =
     \<lparr> FORM_URL_1 = Some ''https://forms.example/book'',
       FORM_URL_2 = Some ''https://forms.example/book?tenant=fp01'',
       cancelAppointmentFormUrl = Some ''https://forms.example/cancel'',
       rescheduleAppointmentFormUrl = None \<rparr>"

section \<open>The form tools\<close>

text \<open>
  The three form tools begin with the same statements:
  \<^verbatim>\<open>
  context = {}
  if query and ('[SESSION_ID:' in query or '[PATH:' in query or '[BOT_ID:' in query):
      context = extract_context_from_message(query)
      bot_id = context.get('bot_id') or bot_id
      session_id = context.get('session_id') or session_id
  if not session_id:
      session_id = 'fallback-session-id'
  \<close>
  \<open>resolve_form_context\<close> is the pair \<open>(session_id, bot_id)\<close> after the first
  \<open>if\<close>, and \<open>session_or_fallback\<close> is the second.
\<close>

definition resolve_form_context ::
  "string \<Rightarrow> string option \<Rightarrow> string option \<Rightarrow> string option \<times> string option" where
  "resolve_form_context query session_id bot_id =
     (if has_tag_prefix query
      then (let context = extract_context_from_message query;
                bot_id = py_or (ctx_bot_id context) bot_id;
                session_id = py_or (ctx_session_id context) session_id
            in (session_id, bot_id))
      else (session_id, bot_id))"

definition session_or_fallback :: "string option \<Rightarrow> string" where
  "session_or_fallback session_id =
     (case session_id of
        None \<Rightarrow> ''fallback-session-id''
      | Some s \<Rightarrow> if s = [] then ''fallback-session-id'' else s)"

text \<open>
  \<^verbatim>\<open>
  separator = '&' if '?' in FORM_URL else '?'
  form_url_with_session = f"{FORM_URL}{separator}session_id={session_id}&ts={int(time.time() * 1000)}"
  \<close>
  \<open>ts\<close> is the clock reading \<open>int(time.time() * 1000)\<close>.  The test \<open>'?' in FORM_URL\<close>
  raises a \<open>TypeError\<close> when the template is \<open>None\<close>; its description is the one
  CPython gives up to version 3.13.
\<close>

abbreviation none_not_iterable :: string where
  "none_not_iterable \<equiv>
     ''argument of type '' @ [CHR 0x27] @ ''NoneType'' @ [CHR 0x27] @ '' is not iterable''"

definition form_url_with_session :: "string option \<Rightarrow> string \<Rightarrow> int \<Rightarrow> exn + string" where
  "form_url_with_session FORM_URL session_id ts =
     (case FORM_URL of
        None \<Rightarrow> Inl (Exception none_not_iterable)
      | Some url \<Rightarrow>
          (let separator = (if in_str ''?'' url then ''&'' else ''?'')
           in Inr (url @ separator @ ''session_id='' @ session_id
                   @ ''&ts='' @ str_int ts)))"

text \<open>The dictionary a form tool serialises on success, and the one of its handler.\<close>

definition success_payload :: "string \<Rightarrow> string \<Rightarrow> string \<Rightarrow> (string \<times> json) list" where
  "success_payload reply form_url session_id =
     [(''reply'', JStr reply), (''form_url'', JStr form_url),
      (''success'', JBool True), (''session_id'', JStr session_id)]"

definition failure_payload :: "string \<Rightarrow> string \<Rightarrow> (string \<times> json) list" where
  "failure_payload reply error =
     [(''reply'', JStr reply), (''success'', JBool False), (''error'', JStr error)]"

text \<open>The fixed reply texts of the form tools; the apostrophe is \<open>CHR 0x27\<close>.\<close>

abbreviation book_reply :: string where
  "book_reply \<equiv>
     ''I'' @ [CHR 0x27]
       @ ''m opening the appointment booking form for you. Please fill it out to book your appointment.''"

abbreviation book_apology :: string where
  "book_apology \<equiv>
     ''Sorry, I couldn'' @ [CHR 0x27]
       @ ''t open the booking form at this moment.''"

abbreviation cancel_reply :: string where
  "cancel_reply \<equiv>
     ''I'' @ [CHR 0x27]
       @ ''m opening the appointment cancellation form for you. Please fill it out to cancel your appointment.''"

abbreviation cancel_apology :: string where
  "cancel_apology \<equiv>
     ''Sorry, I couldn'' @ [CHR 0x27]
       @ ''t open the appointment cancellation form at this moment.''"

abbreviation reschedule_reply :: string where
  "reschedule_reply \<equiv>
     ''I'' @ [CHR 0x27]
       @ ''m opening the appointment rescheduling form for you. Please fill it out to reschedule your appointment.''"

abbreviation reschedule_apology :: string where
  "reschedule_apology \<equiv>
     ''Sorry, I couldn'' @ [CHR 0x27]
       @ ''t open the appointment rescheduling form at this moment.''"

text \<open>
  \<^verbatim>\<open>
  def book_appointment_tool(query: str = "", session_id: str = None, bot_id: str = None) -> str:
      try:
          ... (the common statements)
          FORM_URL = FORM_URL_2 if bot_id == "fp01" else FORM_URL_1
          separator = ...
          form_url_with_session = ...
          return json.dumps({'reply': ..., 'form_url': form_url_with_session,
                             'success': True, 'session_id': session_id})
      except Exception as e:
          return json.dumps({'reply': ..., 'success': False, 'error': str(e)})
  \<close>
  The body of the \<open>try\<close> yields the dictionary or the exception; the tool serialises
  the dictionary inside the \<open>try\<close>, and the handler serialises its own.
\<close>

definition book_appointment_body ::
  "config \<Rightarrow> int \<Rightarrow> string \<Rightarrow> string option \<Rightarrow> string option \<Rightarrow> exn + (string \<times> json) list" where
  "book_appointment_body cfg ts query session_id bot_id =
     (let (session_id, bot_id) = resolve_form_context query session_id bot_id;
          session_id = session_or_fallback session_id;
          FORM_URL = (if bot_id = Some ''fp01'' then FORM_URL_2 cfg else FORM_URL_1 cfg)
      in (case form_url_with_session FORM_URL session_id ts of
            Inl e \<Rightarrow> Inl e
          | Inr url \<Rightarrow>
              Inr (success_payload
                     book_reply
                     url session_id)))"

definition book_appointment_tool ::
  "config \<Rightarrow> int \<Rightarrow> string \<Rightarrow> string option \<Rightarrow> string option \<Rightarrow> exn + string" where
  "book_appointment_tool cfg ts query session_id bot_id =
     except_Exception (\<lambda>error. json_dumps (failure_payload book_apology error))
       (case book_appointment_body cfg ts query session_id bot_id of
          Inl e \<Rightarrow> Inl e
        | Inr payload \<Rightarrow> Inr (json_dumps payload))"

definition cancel_appointment_body ::
  "config \<Rightarrow> int \<Rightarrow> string \<Rightarrow> string option \<Rightarrow> string option \<Rightarrow> exn + (string \<times> json) list" where
  "cancel_appointment_body cfg ts query session_id bot_id =
     (let (session_id, bot_id) = resolve_form_context query session_id bot_id;
          session_id = session_or_fallback session_id
      in (case form_url_with_session (cancelAppointmentFormUrl cfg) session_id ts of
            Inl e \<Rightarrow> Inl e
          | Inr url \<Rightarrow>
              Inr (success_payload
                     cancel_reply
                     url session_id)))"

definition cancel_appointment_tool ::
  "config \<Rightarrow> int \<Rightarrow> string \<Rightarrow> string option \<Rightarrow> string option \<Rightarrow> exn + string" where
  "cancel_appointment_tool cfg ts query session_id bot_id =
     except_Exception (\<lambda>error. json_dumps (failure_payload cancel_apology error))
       (case cancel_appointment_body cfg ts query session_id bot_id of
          Inl e \<Rightarrow> Inl e
        | Inr payload \<Rightarrow> Inr (json_dumps payload))"

definition reschedule_appointment_body ::
  "config \<Rightarrow> int \<Rightarrow> string \<Rightarrow> string option \<Rightarrow> string option \<Rightarrow> exn + (string \<times> json) list" where
  "reschedule_appointment_body cfg ts query session_id bot_id =
     (let (session_id, bot_id) = resolve_form_context query session_id bot_id;
          session_id = session_or_fallback session_id
      in (case form_url_with_session (rescheduleAppointmentFormUrl cfg) session_id ts of
            Inl e \<Rightarrow> Inl e
          | Inr url \<Rightarrow>
              Inr (success_payload
                     reschedule_reply
                     url session_id)))"

definition reschedule_appointment_tool ::
  "config \<Rightarrow> int \<Rightarrow> string \<Rightarrow> string option \<Rightarrow> string option \<Rightarrow> exn + string" where
  "reschedule_appointment_tool cfg ts query session_id bot_id =
     except_Exception (\<lambda>error. json_dumps (failure_payload reschedule_apology error))
       (case reschedule_appointment_body cfg ts query session_id bot_id of
          Inl e \<Rightarrow> Inl e
        | Inr payload \<Rightarrow> Inr (json_dumps payload))"

section \<open>The retrieval tool\<close>

text \<open>
  \<^verbatim>\<open>
  context = {}
  if query and ('[SESSION_ID:' in query or '[PATH:' in query or '[BOT_ID:' in query):
      context = extract_context_from_message(query)
      session_id = context.get('session_id') or session_id
      bot_id = context.get('bot_id') or bot_id
      query = context.get('clean_message', query)
  if not bot_id and context.get('path'):
      bot_id = get_bot_id_from_path(context.get('path'))
  namespace = bot_id if bot_id else "hr4s"
  \<close>
  \<open>rag_resolve\<close> is the triple \<open>(query, session_id, bot_id)\<close> after the second
  \<open>if\<close>; on the empty dictionary \<open>context.get('path')\<close> is \<open>None\<close>.
\<close>

definition rag_resolve ::
  "string \<Rightarrow> string option \<Rightarrow> string option \<Rightarrow> string \<times> string option \<times> string option" where
  "rag_resolve query session_id bot_id =
     (let (query, session_id, bot_id, path) =
            (if has_tag_prefix query
             then (let context = extract_context_from_message query
                   in (clean_message context,
                       py_or (ctx_session_id context) session_id,
                       py_or (ctx_bot_id context) bot_id,
                       ctx_path context))
             else (query, session_id, bot_id, None));
          bot_id = (if \<not> truthy bot_id \<and> truthy path
                    then Some (get_bot_id_from_path path) else bot_id)
      in (query, session_id, bot_id))"

text \<open>
  The call to the vector backend:
  \<^verbatim>\<open>
  ranked_results = index.search_records(
      namespace=namespace,
      query={"inputs": {"text": query}, "top_k": 7},
      rerank={"model": "bge-reranker-v2-m3", "top_n": 5, "rank_fields": ["text"]})
  results = ranked_results.result.hits
  \<close>
  The backend is a parameter: given the request it yields the hits, each hit as
  the text \<open>repr\<close> gives it, or raises.
\<close>

record search_request =
  req_namespace :: string
  req_text :: string
  req_top_k :: nat
  req_rerank_model :: string
  req_top_n :: nat
  req_rank_fields :: "string list"

definition rag_request :: "string \<Rightarrow> string option \<Rightarrow> string option \<Rightarrow> search_request" where
  "rag_request query session_id bot_id =
     (let (query, session_id, bot_id) = rag_resolve query session_id bot_id;
          namespace = (if truthy bot_id
                       then (case bot_id of Some b \<Rightarrow> b | None \<Rightarrow> ''hr4s'')
                       else ''hr4s'')
      in \<lparr> req_namespace = namespace, req_text = query, req_top_k = 7,
           req_rerank_model = ''bge-reranker-v2-m3'', req_top_n = 5,
           req_rank_fields = [''text''] \<rparr>)"

text \<open>
  \<^verbatim>\<open>
  def rag_retrieval_tool(query: str, session_id: str = None, bot_id: str = None) -> str:
      try:
          ...
          results = ranked_results.result.hits
          if not results:
              return "Sorry, I couldn't find any relevant information."
          return f"Here's what I found:\n\n{results}"
      except Exception as e:
          return f"Error retrieving context from Pinecone: {str(e)}"
  \<close>
\<close>

text \<open>The fixed text returned when the search has no hits.\<close>

abbreviation nothing_found :: string where
  "nothing_found \<equiv> ''Sorry, I couldn'' @ [CHR 0x27] @ ''t find any relevant information.''"

text \<open>
  \<open>f"Here's what I found:\n\n{results}"\<close>: the list is written as Python writes a
  list, its elements by \<open>repr\<close>.
\<close>

definition found_text :: "string list \<Rightarrow> string" where
  "found_text results =
     ''Here'' @ [CHR 0x27] @ ''s what I found:'' @ [CHR 0x0A, CHR 0x0A]
     @ ''['' @ join '', '' results @ '']''"

definition rag_retrieval_body ::
  "(search_request \<Rightarrow> exn + string list) \<Rightarrow> string \<Rightarrow> string option \<Rightarrow> string option
     \<Rightarrow> exn + string" where
  "rag_retrieval_body search_records query session_id bot_id =
     (case search_records (rag_request query session_id bot_id) of
        Inl e \<Rightarrow> Inl e
      | Inr results \<Rightarrow>
          if results = []
          then Inr nothing_found
          else Inr (found_text results))"

definition rag_retrieval_tool ::
  "(search_request \<Rightarrow> exn + string list) \<Rightarrow> string \<Rightarrow> string option \<Rightarrow> string option
     \<Rightarrow> exn + string" where
  "rag_retrieval_tool search_records query session_id bot_id =
     except_Exception (\<lambda>error. ''Error retrieving context from Pinecone: '' @ error)
       (rag_retrieval_body search_records query session_id bot_id)"

text \<open>
  Two backends for the examples and for the isolation of tenants: one that raises
  \<open>e\<close> on every search, and one whose only documents are \<open>hits\<close>, in the namespace
  \<open>ns\<close>, so that a search in another namespace finds nothing.
\<close>

definition failing_backend :: "exn \<Rightarrow> search_request \<Rightarrow> exn + string list" where
  "failing_backend e request = Inl e"

definition namespace_backend ::
  "string \<Rightarrow> string list \<Rightarrow> search_request \<Rightarrow> exn + string list" where
  "namespace_backend ns hits request =
     (if req_namespace request = ns then Inr hits else Inr [])"

section \<open>Complete tags\<close>

text \<open>
  A message has a complete tag of a key when the deleting pattern of the key matches
  somewhere in it: \<open>[KEY:\<close> with a \<open>]\<close> after it, the value possibly empty.
\<close>

definition has_tag :: "string \<Rightarrow> string \<Rightarrow> bool" where
  "has_tag key message = (re_search (match_delete key) message \<noteq> None)"

section \<open>Messages as pieces\<close>

text \<open>
  To say which tags a message holds, a message is put together from pieces: plain
  characters and tags, a tag being a key and a value.  \<open>render\<close> is the string the
  tools receive.
\<close>

datatype piece = Text char | Tag string string

fun render_piece :: "piece \<Rightarrow> string" where
  "render_piece (Text c) = [c]"
| "render_piece (Tag key v) = tag_prefix key @ v @ '']''"

definition render :: "piece list \<Rightarrow> string" where
  "render ps = concat (map render_piece ps)"

text \<open>
  The messages the composer of the tags is meant to send: a plain character is not
  an opening bracket, a tag has one of the three keys, and its value has no bracket.
\<close>

fun well_formed_piece :: "piece \<Rightarrow> bool" where
  "well_formed_piece (Text c) = (c \<noteq> CHR ''['')"
| "well_formed_piece (Tag key v) =
     (key \<in> set [''SESSION_ID'', ''PATH'', ''BOT_ID'']
      \<and> CHR ''['' \<notin> set v \<and> CHR '']'' \<notin> set v)"

definition well_formed :: "piece list \<Rightarrow> bool" where
  "well_formed ps = list_all well_formed_piece ps"

fun is_text :: "piece \<Rightarrow> bool" where
  "is_text (Text c) = True"
| "is_text (Tag key v) = False"

text \<open>
  What the specification asks of the clean message, before trimming: every tag
  removed, each together with the run of whitespace after it.  \<open>after\<close> says that a
  tag has just been removed, so that whitespace is still part of its run.
\<close>

fun tags_removed :: "bool \<Rightarrow> piece list \<Rightarrow> piece list" where
  "tags_removed after [] = []"
| "tags_removed after (Tag key v # ps) = tags_removed True ps"
| "tags_removed after (Text c # ps) =
     (if after \<and> is_space c then tags_removed True ps
      else Text c # tags_removed False ps)"

text \<open>
  The same for the tags of one key only: what one \<open>re.sub\<close> of the extractor does to
  a well-formed message (lemma \<open>sub_tag_render\<close>).
\<close>

fun del_tag :: "string \<Rightarrow> bool \<Rightarrow> piece list \<Rightarrow> piece list" where
  "del_tag key after [] = []"
| "del_tag key after (Tag k v # ps) =
     (if k = key then del_tag key True ps else Tag k v # del_tag key False ps)"
| "del_tag key after (Text c # ps) =
     (if after \<and> is_space c then del_tag key True ps
      else Text c # del_tag key False ps)"



section \<open>The precedence of the tenant resolver, as specified\<close>

text \<open>
  The specified order: the tenant of an embedded tag, else the explicit tenant, else
  the tenant derived from a captured path, else none.  Each source counts when it is
  a non-empty string.
\<close>

definition tenant_precedence ::
  "string option \<Rightarrow> string option \<Rightarrow> string option \<Rightarrow> string option" where
  "tenant_precedence tag explicit path =
     (if truthy tag then tag
      else if truthy explicit then explicit
      else if truthy path then Some (get_bot_id_from_path path)
      else None)"

text \<open>
  A resolved tenant agrees with the specified one when it is that tenant, or when
  neither is a non-empty string.
\<close>

definition same_tenant :: "string option \<Rightarrow> string option \<Rightarrow> bool" where
  "same_tenant resolved expected =
     (if truthy expected then resolved = expected else \<not> truthy resolved)"

section \<open>Properties\<close>

subsection \<open>Splitting\<close>

lemma split_on_not_Nil: "split_on d s \<noteq> []"
  by (induction s) (auto split: list.splits)

lemma split_on_sep_free: "d \<notin> set s \<Longrightarrow> split_on d s = [s]"
  by (induction s) auto

lemma split_on_append_sep: "split_on d (s @ d # t) = split_on d s @ split_on d t"
proof (induction s)
  case Nil
  show ?case
    by (cases "split_on d t") (simp_all add: split_on_not_Nil)
next
  case (Cons c s)
  show ?case
  proof (cases "c = d")
    case True
    with Cons show ?thesis by simp
  next
    case False
    obtain seg segs where sp: "split_on d s = seg # segs"
      using split_on_not_Nil [of d s] by (cases "split_on d s") auto
    with Cons False show ?thesis by simp
  qed
qed

lemma split_on_snoc_sep: "split_on d (s @ [d]) = split_on d s @ [[]]"
  using split_on_append_sep [of d s "[]"] by simp

lemma split_on_snoc_other:
  "x \<noteq> d \<Longrightarrow> split_on d (s @ [x]) = butlast (split_on d s) @ [last (split_on d s) @ [x]]"
proof (induction s)
  case Nil
  then show ?case by simp
next
  case (Cons c s)
  obtain seg segs where sp: "split_on d s = seg # segs"
    using split_on_not_Nil [of d s] by (cases "split_on d s") auto
  have ne: "split_on d (s @ [x]) \<noteq> []" by (rule split_on_not_Nil)
  show ?case
  proof (cases "c = d")
    case True
    with Cons sp show ?thesis by (simp add: split_on_not_Nil)
  next
    case False
    show ?thesis
    proof (cases segs)
      case Nil
      with Cons False sp show ?thesis by simp
    next
      case (Cons a list)
      with Cons.IH [OF Cons.prems] False sp show ?thesis by simp
    qed
  qed
qed

lemma filter_split_on_dropWhile:
  "filter (\<lambda>seg. seg \<noteq> []) (split_on d (dropWhile (\<lambda>c. c = d) s))
     = filter (\<lambda>seg. seg \<noteq> []) (split_on d s)"
  by (induction s) simp_all

lemma filter_split_on_rev_dropWhile:
  "filter (\<lambda>seg. seg \<noteq> []) (split_on d (rev (dropWhile (\<lambda>c. c = d) (rev s))))
     = filter (\<lambda>seg. seg \<noteq> []) (split_on d s)"
  by (induction s rule: rev_induct) (simp_all add: split_on_snoc_sep)

lemma filter_split_on_strip_char:
  "filter (\<lambda>seg. seg \<noteq> []) (split_on d (strip_char d s))
     = filter (\<lambda>seg. seg \<noteq> []) (split_on d s)"
  by (simp add: strip_char_def filter_split_on_rev_dropWhile filter_split_on_dropWhile)

lemma strip_char_last: "strip_char d s \<noteq> [] \<Longrightarrow> last (strip_char d s) \<noteq> d"
proof -
  assume ne: "strip_char d s \<noteq> []"
  let ?t = "dropWhile (\<lambda>c. c = d) (rev (dropWhile (\<lambda>c. c = d) s))"
  from ne have "?t \<noteq> []" by (simp add: strip_char_def)
  then have "hd ?t \<noteq> d" using hd_dropWhile [of "\<lambda>c. c = d"] by blast
  moreover have "last (strip_char d s) = hd ?t"
    using \<open>?t \<noteq> []\<close> by (simp add: strip_char_def last_rev)
  ultimately show ?thesis by simp
qed

lemma last_split_on_nonempty:
  "s \<noteq> [] \<Longrightarrow> last s \<noteq> d \<Longrightarrow> last (split_on d s) \<noteq> []"
  by (induction s rule: rev_induct) (simp_all add: split_on_snoc_other)

lemma last_filter_keeps:
  "xs \<noteq> [] \<Longrightarrow> P (last xs) \<Longrightarrow> last (filter P xs) = last xs"
  by (induction xs rule: rev_induct) simp_all

lemma last_segment_is_last_nonempty:
  "last (split_on d (strip_char d s))
     = (case filter (\<lambda>seg. seg \<noteq> []) (split_on d s) of [] \<Rightarrow> [] | seg # segs \<Rightarrow> last (seg # segs))"
proof (cases "strip_char d s = []")
  case True
  then have "filter (\<lambda>seg. seg \<noteq> []) (split_on d s) = []"
    using filter_split_on_strip_char [of d s] by simp
  with True show ?thesis by simp
next
  case False
  let ?segs = "split_on d (strip_char d s)"
  have l: "last ?segs \<noteq> []"
    using False strip_char_last [OF False] by (rule last_split_on_nonempty)
  then have "last (filter (\<lambda>seg. seg \<noteq> []) ?segs) = last ?segs"
    using split_on_not_Nil [of d "strip_char d s"] by (simp add: last_filter_keeps)
  moreover have "filter (\<lambda>seg. seg \<noteq> []) ?segs \<noteq> []"
    using l split_on_not_Nil [of d "strip_char d s"]
    by (metis (mono_tags, lifting) filter_empty_conv last_in_set)
  ultimately show ?thesis
    unfolding filter_split_on_strip_char
    by (cases "filter (\<lambda>seg. seg \<noteq> []) (split_on d s)") auto
qed

subsection \<open>Tenant id from a path\<close>

text \<open>
  Claim C9.  For every path string, \<open>get_bot_id_from_path\<close> strips the leading and
  trailing \<open>/\<close>, splits on \<open>/\<close> and returns the last segment, which is the last
  non-empty segment of the path (the empty string when the path has none); the path
  \<open>e1/burneteyecarepinecone/QApixW\<close> gives \<open>QApixW\<close>, and the empty path and \<open>None\<close>
  give the empty string.
\<close>

theorem get_bot_id_from_path_last_segment:
  "get_bot_id_from_path None = []
   \<and> get_bot_id_from_path (Some []) = []
   \<and> get_bot_id_from_path (Some ''e1/burneteyecarepinecone/QApixW'') = ''QApixW''
   \<and> get_bot_id_from_path (Some p) = last (split_on CHR ''/'' (strip_char CHR ''/'' p))
   \<and> get_bot_id_from_path (Some p) =
       (case filter (\<lambda>seg. seg \<noteq> []) (split_on CHR ''/'' p) of
          [] \<Rightarrow> []
        | seg # segs \<Rightarrow> last (seg # segs))"
proof -
  have a: "get_bot_id_from_path None = []"
    by (simp add: get_bot_id_from_path_def truthy_def)
  have b: "get_bot_id_from_path (Some []) = []"
    by (simp add: get_bot_id_from_path_def truthy_def)
  have c: "get_bot_id_from_path (Some ''e1/burneteyecarepinecone/QApixW'') = ''QApixW''"
    by (simp add: get_bot_id_from_path_def truthy_def strip_char_def)
  have d: "get_bot_id_from_path (Some p) = last (split_on CHR ''/'' (strip_char CHR ''/'' p))"
    by (cases p) (simp_all add: get_bot_id_from_path_def truthy_def strip_char_def)
  from a b c d last_segment_is_last_nonempty [of "CHR ''/''" p] show ?thesis
    by simp
qed

text \<open>The theorem at a path with doubled, leading and trailing separators.\<close>

theorem get_bot_id_from_path_last_segment_witness:
  "get_bot_id_from_path (Some ''/e1//acme/Xyz//'') = ''Xyz''
   \<and> filter (\<lambda>seg. seg \<noteq> []) (split_on CHR ''/'' ''/e1//acme/Xyz//'') = [''e1'', ''acme'', ''Xyz'']"
  using get_bot_id_from_path_last_segment [of "''/e1//acme/Xyz//''"]
  by (simp add: strip_char_def)

subsection \<open>What the two patterns match\<close>

lemma starts_with_bracket: "starts_with '']'' xs \<longleftrightarrow> (\<exists>ys. xs = CHR '']'' # ys)"
  by (cases xs) auto

lemma starts_with_append: "starts_with p (p @ s)"
  by (induction p) simp_all

lemma starts_with_iff: "starts_with p s \<longleftrightarrow> (\<exists>t. s = p @ t)"
proof (induction p s rule: starts_with.induct)
  case (1 s)
  then show ?case by simp
next
  case (2 p ps)
  then show ?case by simp
next
  case (3 p ps c cs)
  then show ?case by auto
qed

lemma in_run_not_bracket:
  "n < non_bracket_run r \<Longrightarrow> \<exists>c cs. drop n r = c # cs \<and> c \<noteq> CHR '']''"
proof -
  assume n: "n < non_bracket_run r"
  let ?v = "takeWhile (\<lambda>c. c \<noteq> CHR '']'') r"
  have len: "n < length r"
    using n length_takeWhile_le [of "\<lambda>c. c \<noteq> CHR '']''" r]
    by (simp add: non_bracket_run_def)
  have "r ! n = ?v ! n"
    using n by (simp add: non_bracket_run_def takeWhile_nth)
  moreover have "?v ! n \<in> set ?v"
    using n by (simp add: non_bracket_run_def)
  ultimately have "r ! n \<noteq> CHR '']''"
    using set_takeWhileD [of "r ! n" "\<lambda>c. c \<noteq> CHR '']''" r] by simp
  with len show ?thesis
    by (metis Cons_nth_drop_Suc)
qed

lemma try_close_inside_run: "n < non_bracket_run r \<Longrightarrow> try_close n r = None"
proof (induction n)
  case 0
  then obtain c cs where "drop 0 r = c # cs" "c \<noteq> CHR '']''"
    using in_run_not_bracket by blast
  then have "\<not> starts_with '']'' r" by (cases r) auto
  then show ?case by simp
next
  case (Suc n)
  then obtain c cs where "drop (Suc n) r = c # cs" "c \<noteq> CHR '']''"
    using in_run_not_bracket by blast
  then have "\<not> starts_with '']'' (drop (Suc n) r)" by simp
  moreover have "try_close n r = None" using Suc by simp
  ultimately show ?case by simp
qed

lemma drop_run: "drop (non_bracket_run r) r = dropWhile (\<lambda>c. c \<noteq> CHR '']'') r"
  by (simp add: non_bracket_run_def dropWhile_eq_drop [symmetric])

lemma take_run: "take (non_bracket_run r) r = takeWhile (\<lambda>c. c \<noteq> CHR '']'') r"
  by (simp add: non_bracket_run_def takeWhile_eq_take [symmetric])

lemma dropWhile_bracket:
  "dropWhile (\<lambda>c. c \<noteq> CHR '']'') r = [] \<or>
   (\<exists>ys. dropWhile (\<lambda>c. c \<noteq> CHR '']'') r = CHR '']'' # ys)"
proof (cases "dropWhile (\<lambda>c. c \<noteq> CHR '']'') r")
  case Nil
  then show ?thesis by simp
next
  case (Cons a ys)
  have "\<not> (hd (dropWhile (\<lambda>c. c \<noteq> CHR '']'') r) \<noteq> CHR '']'')"
    by (rule hd_dropWhile) (simp add: Cons)
  then have "a = CHR '']''" by (simp add: Cons)
  with Cons show ?thesis by simp
qed

lemma bracket_mem_dropWhile:
  "CHR '']'' \<in> set r \<longleftrightarrow> dropWhile (\<lambda>c. c \<noteq> CHR '']'') r \<noteq> []"
  by (induction r) simp_all

lemma closes_after_run:
  "starts_with '']'' (drop (non_bracket_run r) r) \<longleftrightarrow> CHR '']'' \<in> set r"
proof (cases "dropWhile (\<lambda>c. c \<noteq> CHR '']'') r")
  case Nil
  have "drop (non_bracket_run r) r = []"
    using Nil by (simp only: drop_run)
  moreover have "CHR '']'' \<notin> set r"
    using Nil by (simp only: bracket_mem_dropWhile) simp
  ultimately show ?thesis by simp
next
  case (Cons a ys)
  with dropWhile_bracket [of r] have a: "a = CHR '']''" by simp
  have "drop (non_bracket_run r) r = CHR '']'' # ys"
    using Cons a by (simp only: drop_run)
  moreover have "CHR '']'' \<in> set r"
    using Cons by (simp only: bracket_mem_dropWhile) simp
  ultimately show ?thesis by simp
qed

lemma try_close_run:
  "try_close (non_bracket_run r) r =
     (if CHR '']'' \<in> set r then Some (non_bracket_run r) else None)"
proof (cases "non_bracket_run r")
  case 0
  have "try_close 0 r = (if CHR '']'' \<in> set r then Some 0 else None)"
    using closes_after_run [of r] unfolding 0 by simp
  then show ?thesis unfolding 0 .
next
  case (Suc n)
  have none: "try_close n r = None"
    by (rule try_close_inside_run) (simp add: Suc)
  have "try_close (Suc n) r = (if CHR '']'' \<in> set r then Some (Suc n) else None)"
    using closes_after_run [of r] none unfolding Suc by simp
  then show ?thesis unfolding Suc .
qed

lemma capture_value_eq:
  "capture_value r =
     (if CHR '']'' \<in> set r \<and> takeWhile (\<lambda>c. c \<noteq> CHR '']'') r \<noteq> []
      then Some (takeWhile (\<lambda>c. c \<noteq> CHR '']'') r) else None)"
proof -
  let ?v = "takeWhile (\<lambda>c. c \<noteq> CHR '']'') r"
  have cv: "capture_value r =
      (if CHR '']'' \<in> set r
       then (case non_bracket_run r of 0 \<Rightarrow> None | Suc n \<Rightarrow> Some (take (Suc n) r))
       else None)"
    unfolding capture_value_def try_close_run by simp
  show ?thesis
  proof (cases "non_bracket_run r")
    case 0
    then have "?v = []" by (simp add: non_bracket_run_def)
    with 0 cv show ?thesis by simp
  next
    case (Suc n)
    then have "?v \<noteq> []" by (auto simp: non_bracket_run_def)
    moreover have "take (Suc n) r = ?v" using take_run [of r] Suc by simp
    ultimately show ?thesis using Suc cv by simp
  qed
qed

lemma match_delete_eq:
  "match_delete key s =
     (if starts_with (tag_prefix key) s
         \<and> CHR '']'' \<in> set (drop (length (tag_prefix key)) s)
      then Some (dropWhile is_space
                  (tl (dropWhile (\<lambda>c. c \<noteq> CHR '']'') (drop (length (tag_prefix key)) s))))
      else None)"
proof -
  define r where "r = drop (length (tag_prefix key)) s"
  have d: "drop (Suc (non_bracket_run r)) r = tl (dropWhile (\<lambda>c. c \<noteq> CHR '']'') r)"
    by (metis drop_run drop_Suc tl_drop)
  have "match_delete key s =
      (if starts_with (tag_prefix key) s
       then (case try_close (non_bracket_run r) r of
               None \<Rightarrow> None
             | Some n \<Rightarrow> Some (dropWhile is_space (drop (Suc n) r)))
       else None)"
    unfolding match_delete_def Let_def r_def ..
  also have "\<dots> =
      (if starts_with (tag_prefix key) s \<and> CHR '']'' \<in> set r
       then Some (dropWhile is_space (tl (dropWhile (\<lambda>c. c \<noteq> CHR '']'') r)))
       else None)"
    unfolding try_close_run using d by simp
  finally show ?thesis unfolding r_def .
qed


lemma space_not_bracket: "is_space c \<Longrightarrow> c \<noteq> CHR '']''"
  by (auto simp: is_space_def)

lemma strip_spaces: "\<forall>c\<in>set w. is_space c \<Longrightarrow> strip w = []"
  by (auto simp: strip_def dest: set_dropWhileD)

lemma strip_leading_spaces: "\<forall>c\<in>set w. is_space c \<Longrightarrow> strip (w @ v) = strip v"
proof -
  assume "\<forall>c\<in>set w. is_space c"
  then have "dropWhile is_space (w @ v) = dropWhile is_space v"
    by (simp add: dropWhile_append)
  then show ?thesis by (simp add: strip_def)
qed

lemma takeWhile_spaces_append:
  "\<forall>c\<in>set w. is_space c \<Longrightarrow>
     takeWhile (\<lambda>c. c \<noteq> CHR '']'') (w @ r) = w @ takeWhile (\<lambda>c. c \<noteq> CHR '']'') r"
  by (induction w) (auto dest: space_not_bracket)

lemma bracket_mem_spaces_append:
  "\<forall>c\<in>set w. is_space c \<Longrightarrow> CHR '']'' \<in> set (w @ r) \<longleftrightarrow> CHR '']'' \<in> set r"
  by (auto dest: space_not_bracket)

lemma capture_ws_first:
  "capture_value (drop j r) = Some v \<Longrightarrow> capture_ws j r = Some v"
  by (cases j) simp_all

lemma capture_ws_no_bracket: "CHR '']'' \<notin> set r \<Longrightarrow> capture_ws j r = None"
proof (induction j)
  case 0
  then show ?case by (simp add: capture_value_eq)
next
  case (Suc j)
  have "CHR '']'' \<notin> set (drop (Suc j) r)"
    using Suc.prems in_set_dropD by fast
  then have "capture_value (drop (Suc j) r) = None"
    by (simp add: capture_value_eq)
  with Suc show ?case by simp
qed

lemma capture_ws_strip_decomp:
  assumes w: "\<forall>c\<in>set w. is_space c"
  shows "map_option strip (capture_ws (length w) (w @ r1)) =
           (if CHR '']'' \<in> set (w @ r1)
               \<and> takeWhile (\<lambda>c. c \<noteq> CHR '']'') (w @ r1) \<noteq> []
            then Some (strip (takeWhile (\<lambda>c. c \<noteq> CHR '']'') (w @ r1))) else None)"
proof (cases "CHR '']'' \<in> set r1")
  case False
  then have nb: "CHR '']'' \<notin> set (w @ r1)"
    using bracket_mem_spaces_append [OF w, of r1] by blast
  then have "capture_ws (length w) (w @ r1) = None"
    by (rule capture_ws_no_bracket)
  with nb show ?thesis by simp
next
  case True
  let ?v1 = "takeWhile (\<lambda>c. c \<noteq> CHR '']'') r1"
  have mem: "CHR '']'' \<in> set (w @ r1)" using True by simp
  have tw: "takeWhile (\<lambda>c. c \<noteq> CHR '']'') (w @ r1) = w @ ?v1"
    using w by (rule takeWhile_spaces_append)
  have st: "strip (w @ ?v1) = strip ?v1"
    using w by (rule strip_leading_spaces)
  show ?thesis
  proof (cases "?v1 = []")
    case False
    have "capture_value (drop (length w) (w @ r1)) = Some ?v1"
      using True False by (simp add: capture_value_eq)
    then have "capture_ws (length w) (w @ r1) = Some ?v1"
      by (rule capture_ws_first)
    with mem tw st False show ?thesis by simp
  next
    case v1: True
    show ?thesis
    proof (cases w rule: rev_cases)
      case Nil
      with True v1 show ?thesis by (simp add: capture_value_eq)
    next
      case (snoc w' c)
      have c: "is_space c" and w': "\<forall>c\<in>set w'. is_space c"
        using w snoc by simp_all
      have none: "capture_value (drop (Suc (length w')) (w @ r1)) = None"
        using v1 snoc by (simp add: capture_value_eq)
      have "drop (length w') (w @ r1) = c # r1"
        using snoc by simp
      moreover have "takeWhile (\<lambda>c. c \<noteq> CHR '']'') (c # r1) = [c]"
        using v1 c by (simp add: space_not_bracket)
      ultimately have "capture_value (drop (length w') (w @ r1)) = Some [c]"
        using True by (simp add: capture_value_eq)
      then have "capture_ws (length w') (w @ r1) = Some [c]"
        by (rule capture_ws_first)
      with none have "capture_ws (length w) (w @ r1) = Some [c]"
        using snoc by simp
      moreover have "strip [c] = []" using c by (simp add: strip_def)
      moreover have "strip (w @ ?v1) = []"
        using w v1 by (simp add: strip_spaces)
      ultimately show ?thesis using mem tw snoc by simp
    qed
  qed
qed

lemma match_capture_strip:
  "map_option strip (match_capture key s) =
     (if starts_with (tag_prefix key) s
         \<and> CHR '']'' \<in> set (drop (length (tag_prefix key)) s)
         \<and> takeWhile (\<lambda>c. c \<noteq> CHR '']'') (drop (length (tag_prefix key)) s) \<noteq> []
      then Some (strip (takeWhile (\<lambda>c. c \<noteq> CHR '']'') (drop (length (tag_prefix key)) s)))
      else None)"
proof -
  define r where "r = drop (length (tag_prefix key)) s"
  have "map_option strip (capture_ws (length (takeWhile is_space r))
            (takeWhile is_space r @ dropWhile is_space r)) =
        (if CHR '']'' \<in> set (takeWhile is_space r @ dropWhile is_space r)
            \<and> takeWhile (\<lambda>c. c \<noteq> CHR '']'') (takeWhile is_space r @ dropWhile is_space r) \<noteq> []
         then Some (strip (takeWhile (\<lambda>c. c \<noteq> CHR '']'')
                            (takeWhile is_space r @ dropWhile is_space r)))
         else None)"
    by (rule capture_ws_strip_decomp) (auto dest: set_takeWhileD)
  then have "map_option strip (capture_ws (length (takeWhile is_space r)) r) =
        (if CHR '']'' \<in> set r \<and> takeWhile (\<lambda>c. c \<noteq> CHR '']'') r \<noteq> []
         then Some (strip (takeWhile (\<lambda>c. c \<noteq> CHR '']'') r)) else None)"
    by (simp only: takeWhile_dropWhile_id)
  then have eq: "map_option strip (capture_ws (length (takeWhile is_space r)) r) =
        (if CHR '']'' \<in> set r \<and> takeWhile (\<lambda>c. c \<noteq> CHR '']'') r \<noteq> []
         then Some (strip (takeWhile (\<lambda>c. c \<noteq> CHR '']'') r)) else None)" .
  show ?thesis
  proof (cases "starts_with (tag_prefix key) s")
    case True
    then have "match_capture key s = capture_ws (length (takeWhile is_space r)) r"
      by (simp add: match_capture_def Let_def r_def)
    then have "map_option strip (match_capture key s) =
        (if CHR '']'' \<in> set r \<and> takeWhile (\<lambda>c. c \<noteq> CHR '']'') r \<noteq> []
         then Some (strip (takeWhile (\<lambda>c. c \<noteq> CHR '']'') r)) else None)"
      using eq by (simp only:)
    with True show ?thesis by (simp only: r_def) simp
  next
    case False
    then show ?thesis by (simp add: match_capture_def)
  qed
qed

subsection \<open>The gate before the extractor changes nothing\<close>

lemma in_str_single: "in_str [c] s \<longleftrightarrow> c \<in> set s"
  by (induction s) auto

lemma match_capture_needs_prefix:
  "match_capture key s = Some v \<Longrightarrow> starts_with (tag_prefix key) s"
  by (simp add: match_capture_def split: if_splits)

lemma search_needs_prefix:
  "re_search (match_capture key) q = Some v \<Longrightarrow> in_str (tag_prefix key) q"
proof (induction q)
  case Nil
  then show ?case by (auto dest: match_capture_needs_prefix)
next
  case (Cons c q)
  then show ?case
    by (auto dest: match_capture_needs_prefix split: option.splits)
qed

lemma tag_value_needs_prefix: "tag_value key q = Some v \<Longrightarrow> in_str (tag_prefix key) q"
  by (auto simp: tag_value_def dest: search_needs_prefix)

lemma in_str_Nil: "in_str (p # ps) [] = False"
  by simp

lemma no_prefix_no_value:
  assumes "\<not> has_tag_prefix q"
  shows "tag_value ''SESSION_ID'' q = None"
    and "tag_value ''PATH'' q = None"
    and "tag_value ''BOT_ID'' q = None"
proof -
  have np: "\<not> in_str ''[SESSION_ID:'' q" "\<not> in_str ''[PATH:'' q" "\<not> in_str ''[BOT_ID:'' q"
    using assms by (cases q; simp add: has_tag_prefix_def)+
  show "tag_value ''SESSION_ID'' q = None"
    using np(1) tag_value_needs_prefix [of "''SESSION_ID''" q]
    by (cases "tag_value ''SESSION_ID'' q") (simp_all add: tag_prefix_def)
  show "tag_value ''PATH'' q = None"
    using np(2) tag_value_needs_prefix [of "''PATH''" q]
    by (cases "tag_value ''PATH'' q") (simp_all add: tag_prefix_def)
  show "tag_value ''BOT_ID'' q = None"
    using np(3) tag_value_needs_prefix [of "''BOT_ID''" q]
    by (cases "tag_value ''BOT_ID'' q") (simp_all add: tag_prefix_def)
qed

lemma py_or_None [simp]: "py_or None b = b"
  by (simp add: py_or_def truthy_def)

lemma resolve_form_context_eq:
  "resolve_form_context q s b =
     (py_or (tag_value ''SESSION_ID'' q) s, py_or (tag_value ''BOT_ID'' q) b)"
  by (simp add: resolve_form_context_def extract_context_from_message_def Let_def
        no_prefix_no_value)

lemma rag_resolve_eq:
  "rag_resolve q s b =
     (if has_tag_prefix q then clean_message (extract_context_from_message q) else q,
      py_or (tag_value ''SESSION_ID'' q) s,
      (if \<not> truthy (py_or (tag_value ''BOT_ID'' q) b) \<and> truthy (tag_value ''PATH'' q)
       then Some (get_bot_id_from_path (tag_value ''PATH'' q))
       else py_or (tag_value ''BOT_ID'' q) b))"
  by (simp add: rag_resolve_def extract_context_from_message_def Let_def
        no_prefix_no_value truthy_def)

subsection \<open>Tenant resolution\<close>

text \<open>
  Claim C1.  The retrieval tool resolves the tenant in the specified order: the
  \<open>BOT_ID\<close> tag of the query, else the explicit \<open>bot_id\<close> argument, else the tenant
  derived from the \<open>PATH\<close> tag, else none.  The three form tools resolve it in the
  same order without the path step: a tenant is never derived from a path there.
  Both hold for every query and every explicit argument, whether or not the query
  passes the gate before the extractor.
\<close>

theorem tenant_resolution_precedence:
  "same_tenant (snd (snd (rag_resolve query session_id bot_id)))
     (tenant_precedence (tag_value ''BOT_ID'' query) bot_id (tag_value ''PATH'' query))
   \<and> same_tenant (snd (resolve_form_context query session_id bot_id))
     (tenant_precedence (tag_value ''BOT_ID'' query) bot_id None)"
  by (simp add: rag_resolve_eq resolve_form_context_eq same_tenant_def tenant_precedence_def
        py_or_def) (simp add: truthy_def)

text \<open>A query with only a path, and a query whose tag overrides the explicit tenant.\<close>

theorem tenant_resolution_precedence_witness:
  "snd (snd (rag_resolve ''[PATH: e1/acme/fp01] book me in'' None None)) = Some ''fp01''
   \<and> snd (resolve_form_context ''[BOT_ID: acme] [PATH: e1/x/fp01] hi'' None (Some ''other''))
       = Some ''acme''"
proof -
  have b: "tenant_precedence (tag_value ''BOT_ID'' ''[PATH: e1/acme/fp01] book me in'') None
             (tag_value ''PATH'' ''[PATH: e1/acme/fp01] book me in'') = Some ''fp01''"
    by code_simp
  have d: "tenant_precedence (tag_value ''BOT_ID'' ''[BOT_ID: acme] [PATH: e1/x/fp01] hi'')
             (Some ''other'') None = Some ''acme''"
    by code_simp
  from tenant_resolution_precedence [of "''[PATH: e1/acme/fp01] book me in''" None None]
       tenant_resolution_precedence [of "''[BOT_ID: acme] [PATH: e1/x/fp01] hi''" None "Some ''other''"]
  show ?thesis
    unfolding b d by (simp add: same_tenant_def truthy_def)
qed

text \<open>
  For claim C1 as first stated, with the path step in every tool: on a query with
  only a path the specified order gives \<open>fp01\<close>, and the form tools resolve no tenant.
\<close>

theorem form_tools_ignore_path_counterexample:
  "tenant_precedence (tag_value ''BOT_ID'' ''[PATH: e1/acme/fp01] book me in'') None
     (tag_value ''PATH'' ''[PATH: e1/acme/fp01] book me in'') = Some ''fp01''
   \<and> snd (resolve_form_context ''[PATH: e1/acme/fp01] book me in'' None None) = None
   \<and> \<not> same_tenant (snd (resolve_form_context ''[PATH: e1/acme/fp01] book me in'' None None))
         (tenant_precedence (tag_value ''BOT_ID'' ''[PATH: e1/acme/fp01] book me in'') None
            (tag_value ''PATH'' ''[PATH: e1/acme/fp01] book me in''))"
  by code_simp


subsection \<open>What the tools return\<close>

lemma form_url_with_session_Some:
  "form_url_with_session (Some template) sid ts =
     Inr (template @ (if CHR ''?'' \<in> set template then ''&'' else ''?'')
          @ ''session_id='' @ sid @ ''&ts='' @ str_int ts)"
  by (simp add: form_url_with_session_def in_str_single)

lemma form_url_with_session_None:
  "form_url_with_session None sid ts = Inl (Exception none_not_iterable)"
  by (simp add: form_url_with_session_def)

lemma except_Exception_Inr: "except_Exception handler (Inr result) = Inr result"
  by (simp add: except_Exception_def)

lemma except_Exception_printable:
  "except_Exception handler (Inl (Exception d)) = Inr (handler d)"
  by (simp add: except_Exception_def)

lemma except_Exception_unprintable:
  "except_Exception handler (Inl (Unprintable raised)) = Inl raised"
  by (simp add: except_Exception_def)

lemma except_Exception_base:
  "except_Exception handler (Inl (BaseException name)) = Inl (BaseException name)"
  by (simp add: except_Exception_def)

lemma book_appointment_body_eq:
  "book_appointment_body cfg ts query session_id bot_id =
     (case (if snd (resolve_form_context query session_id bot_id) = Some ''fp01''
            then FORM_URL_2 cfg else FORM_URL_1 cfg) of
        None \<Rightarrow> Inl (Exception none_not_iterable)
      | Some template \<Rightarrow>
          Inr (success_payload book_reply
                 (template @ (if CHR ''?'' \<in> set template then ''&'' else ''?'')
                  @ ''session_id=''
                  @ session_or_fallback (fst (resolve_form_context query session_id bot_id))
                  @ ''&ts='' @ str_int ts)
                 (session_or_fallback (fst (resolve_form_context query session_id bot_id)))))"
proof -
  obtain sid bid where r: "resolve_form_context query session_id bot_id = (sid, bid)"
    by (cases "resolve_form_context query session_id bot_id")
  show ?thesis
    by (simp add: r book_appointment_body_def Let_def form_url_with_session_Some
          form_url_with_session_None split: option.splits)
qed

lemma cancel_appointment_body_eq:
  "cancel_appointment_body cfg ts query session_id bot_id =
     (case cancelAppointmentFormUrl cfg of
        None \<Rightarrow> Inl (Exception none_not_iterable)
      | Some template \<Rightarrow>
          Inr (success_payload cancel_reply
                 (template @ (if CHR ''?'' \<in> set template then ''&'' else ''?'')
                  @ ''session_id=''
                  @ session_or_fallback (fst (resolve_form_context query session_id bot_id))
                  @ ''&ts='' @ str_int ts)
                 (session_or_fallback (fst (resolve_form_context query session_id bot_id)))))"
proof -
  obtain sid bid where r: "resolve_form_context query session_id bot_id = (sid, bid)"
    by (cases "resolve_form_context query session_id bot_id")
  show ?thesis
    by (simp add: r cancel_appointment_body_def Let_def form_url_with_session_Some
          form_url_with_session_None split: option.splits)
qed

lemma reschedule_appointment_body_eq:
  "reschedule_appointment_body cfg ts query session_id bot_id =
     (case rescheduleAppointmentFormUrl cfg of
        None \<Rightarrow> Inl (Exception none_not_iterable)
      | Some template \<Rightarrow>
          Inr (success_payload reschedule_reply
                 (template @ (if CHR ''?'' \<in> set template then ''&'' else ''?'')
                  @ ''session_id=''
                  @ session_or_fallback (fst (resolve_form_context query session_id bot_id))
                  @ ''&ts='' @ str_int ts)
                 (session_or_fallback (fst (resolve_form_context query session_id bot_id)))))"
proof -
  obtain sid bid where r: "resolve_form_context query session_id bot_id = (sid, bid)"
    by (cases "resolve_form_context query session_id bot_id")
  show ?thesis
    by (simp add: r reschedule_appointment_body_def Let_def form_url_with_session_Some
          form_url_with_session_None split: option.splits)
qed

lemma book_tool_of_body:
  "book_appointment_body cfg ts query session_id bot_id = Inr payload \<Longrightarrow>
     book_appointment_tool cfg ts query session_id bot_id = Inr (json_dumps payload)"
  "book_appointment_body cfg ts query session_id bot_id = Inl (Exception d) \<Longrightarrow>
     book_appointment_tool cfg ts query session_id bot_id
       = Inr (json_dumps (failure_payload book_apology d))"
  by (simp_all add: book_appointment_tool_def except_Exception_def)

lemma cancel_tool_of_body:
  "cancel_appointment_body cfg ts query session_id bot_id = Inr payload \<Longrightarrow>
     cancel_appointment_tool cfg ts query session_id bot_id = Inr (json_dumps payload)"
  "cancel_appointment_body cfg ts query session_id bot_id = Inl (Exception d) \<Longrightarrow>
     cancel_appointment_tool cfg ts query session_id bot_id
       = Inr (json_dumps (failure_payload cancel_apology d))"
  by (simp_all add: cancel_appointment_tool_def except_Exception_def)

lemma reschedule_tool_of_body:
  "reschedule_appointment_body cfg ts query session_id bot_id = Inr payload \<Longrightarrow>
     reschedule_appointment_tool cfg ts query session_id bot_id = Inr (json_dumps payload)"
  "reschedule_appointment_body cfg ts query session_id bot_id = Inl (Exception d) \<Longrightarrow>
     reschedule_appointment_tool cfg ts query session_id bot_id
       = Inr (json_dumps (failure_payload reschedule_apology d))"
  by (simp_all add: reschedule_appointment_tool_def except_Exception_def)

lemma json_plain:
  "json_string ''reply'' = [CHR 0x22] @ ''reply'' @ [CHR 0x22]"
  "json_string ''form_url'' = [CHR 0x22] @ ''form_url'' @ [CHR 0x22]"
  "json_string ''success'' = [CHR 0x22] @ ''success'' @ [CHR 0x22]"
  "json_string ''session_id'' = [CHR 0x22] @ ''session_id'' @ [CHR 0x22]"
  "json_string ''error'' = [CHR 0x22] @ ''error'' @ [CHR 0x22]"
  by (simp_all add: json_string_def json_escape_char_def)

lemma json_dumps_failure:
  "json_dumps (failure_payload reply error) =
     ''{'' @ [CHR 0x22] @ ''reply'' @ [CHR 0x22] @ '': '' @ json_string reply @ '', ''
     @ [CHR 0x22] @ ''success'' @ [CHR 0x22] @ '': false, ''
     @ [CHR 0x22] @ ''error'' @ [CHR 0x22] @ '': '' @ json_string error @ ''}''"
  by (simp add: json_dumps_def failure_payload_def json_plain)

lemma json_dumps_success:
  "json_dumps (success_payload reply url sid) =
     ''{'' @ [CHR 0x22] @ ''reply'' @ [CHR 0x22] @ '': '' @ json_string reply @ '', ''
     @ [CHR 0x22] @ ''form_url'' @ [CHR 0x22] @ '': '' @ json_string url @ '', ''
     @ [CHR 0x22] @ ''success'' @ [CHR 0x22] @ '': true, ''
     @ [CHR 0x22] @ ''session_id'' @ [CHR 0x22] @ '': '' @ json_string sid @ ''}''"
  by (simp add: json_dumps_def success_payload_def json_plain)

lemma str_int_1723: "str_int 1723 = ''1723''"
  by (simp add: str_int_def str_nat.simps)

lemma rag_request_eq:
  "rag_request query session_id bot_id =
     \<lparr> req_namespace =
         (case snd (snd (rag_resolve query session_id bot_id)) of
            None \<Rightarrow> ''hr4s''
          | Some tenant \<Rightarrow> if tenant = [] then ''hr4s'' else tenant),
       req_text = fst (rag_resolve query session_id bot_id),
       req_top_k = 7, req_rerank_model = ''bge-reranker-v2-m3'', req_top_n = 5,
       req_rank_fields = [''text''] \<rparr>"
  by (cases "rag_resolve query session_id bot_id")
     (simp add: rag_request_def truthy_def split: option.splits)

lemma found_text_not_nothing: "found_text results \<noteq> nothing_found"
  by (simp add: found_text_def)

subsection \<open>The search namespace\<close>

lemma rag_retrieval_body_eq:
  "rag_retrieval_body search_records query session_id bot_id =
     (case search_records
             \<lparr> req_namespace =
                 (case snd (snd (rag_resolve query session_id bot_id)) of
                    None \<Rightarrow> ''hr4s''
                  | Some tenant \<Rightarrow> if tenant = [] then ''hr4s'' else tenant),
               req_text = fst (rag_resolve query session_id bot_id),
               req_top_k = 7, req_rerank_model = ''bge-reranker-v2-m3'', req_top_n = 5,
               req_rank_fields = [''text''] \<rparr> of
        Inl e \<Rightarrow> Inl e
      | Inr results \<Rightarrow>
          if results = [] then Inr nothing_found else Inr (found_text results))"
  by (simp add: rag_retrieval_body_def rag_request_eq)

lemma rag_tool_namespace_backend:
  "hits \<noteq> [] \<Longrightarrow>
     rag_retrieval_tool (namespace_backend ns hits) query session_id bot_id =
       (if ns = (case snd (snd (rag_resolve query session_id bot_id)) of
                   None \<Rightarrow> ''hr4s''
                 | Some tenant \<Rightarrow> if tenant = [] then ''hr4s'' else tenant)
        then Inr (found_text hits) else Inr nothing_found)"
  by (auto simp: rag_retrieval_tool_def rag_retrieval_body_eq namespace_backend_def
        except_Exception_Inr)

text \<open>
  Claim C3.  The retrieval tool searches the backend once, with a request whose
  namespace is the resolved tenant when that is a non-empty string and \<open>hr4s\<close>
  otherwise.  So, of a backend whose documents are all in one namespace, the tool
  returns the documents exactly when that namespace is the resolved tenant (or
  \<open>hr4s\<close> when there is none), and the nothing-found text for every other namespace.
  For the query \<open>[PATH: e1/acme/Xyz] find hours\<close> with no explicit arguments the search
  runs in \<open>Xyz\<close>: documents in \<open>Xyz\<close> are found, documents in \<open>hr4s\<close> are not.
\<close>

theorem rag_searches_tenant_namespace:
  "rag_retrieval_body search_records query session_id bot_id =
     (case search_records
             \<lparr> req_namespace =
                 (case snd (snd (rag_resolve query session_id bot_id)) of
                    None \<Rightarrow> ''hr4s''
                  | Some tenant \<Rightarrow> if tenant = [] then ''hr4s'' else tenant),
               req_text = fst (rag_resolve query session_id bot_id),
               req_top_k = 7, req_rerank_model = ''bge-reranker-v2-m3'', req_top_n = 5,
               req_rank_fields = [''text''] \<rparr> of
        Inl e \<Rightarrow> Inl e
      | Inr results \<Rightarrow>
          if results = [] then Inr nothing_found else Inr (found_text results))
   \<and> (hits \<noteq> [] \<longrightarrow>
        rag_retrieval_tool (namespace_backend ns hits) query session_id bot_id =
          (if ns = (case snd (snd (rag_resolve query session_id bot_id)) of
                      None \<Rightarrow> ''hr4s''
                    | Some tenant \<Rightarrow> if tenant = [] then ''hr4s'' else tenant)
           then Inr (found_text hits) else Inr nothing_found))
   \<and> rag_retrieval_tool (namespace_backend ''Xyz'' [''doc''])
         ''[PATH: e1/acme/Xyz] find hours'' None None = Inr (found_text [''doc''])
   \<and> rag_retrieval_tool (namespace_backend ''hr4s'' [''doc''])
         ''[PATH: e1/acme/Xyz] find hours'' None None = Inr nothing_found"
proof -
  have r: "snd (snd (rag_resolve ''[PATH: e1/acme/Xyz] find hours'' None None)) = Some ''Xyz''"
    by code_simp
  have n: "[''doc''] \<noteq> ([] :: string list)"
    by simp
  have x: "rag_retrieval_tool (namespace_backend ''Xyz'' [''doc''])
         ''[PATH: e1/acme/Xyz] find hours'' None None = Inr (found_text [''doc''])"
    using rag_tool_namespace_backend [OF n, of "''Xyz''" "''[PATH: e1/acme/Xyz] find hours''"
            None None]
    unfolding r by simp
  have h: "rag_retrieval_tool (namespace_backend ''hr4s'' [''doc''])
         ''[PATH: e1/acme/Xyz] find hours'' None None = Inr nothing_found"
    using rag_tool_namespace_backend [OF n, of "''hr4s''" "''[PATH: e1/acme/Xyz] find hours''"
            None None]
    unfolding r by simp
  from rag_retrieval_body_eq [of search_records query session_id bot_id]
       rag_tool_namespace_backend [of hits ns query session_id bot_id] x h
  show ?thesis
    by (intro conjI impI)
qed

text \<open>
  A tag that wins over the explicit tenant: documents of the tag's tenant are found,
  documents of the explicit tenant are not.
\<close>

theorem rag_searches_tenant_namespace_witness:
  "rag_retrieval_tool (namespace_backend ''acme'' [''doc''])
       ''[BOT_ID: acme] [PATH: e1/x/Xyz] find hours'' None (Some ''other'')
     = Inr (found_text [''doc''])
   \<and> rag_retrieval_tool (namespace_backend ''other'' [''doc''])
       ''[BOT_ID: acme] [PATH: e1/x/Xyz] find hours'' None (Some ''other'')
     = Inr nothing_found"
proof -
  have a: "snd (snd (rag_resolve ''[BOT_ID: acme] [PATH: e1/x/Xyz] find hours'' None
                       (Some ''other''))) = Some ''acme''"
    by code_simp
  have n: "[''doc''] \<noteq> ([] :: string list)"
    by simp
  from rag_searches_tenant_namespace
         [of _ "''[BOT_ID: acme] [PATH: e1/x/Xyz] find hours''" None "Some ''other''"
             "[''doc'']" "''acme''"]
       rag_searches_tenant_namespace
         [of _ "''[BOT_ID: acme] [PATH: e1/x/Xyz] find hours''" None "Some ''other''"
             "[''doc'']" "''other''"]
  show ?thesis
    using n unfolding a by simp
qed

subsection \<open>No hits\<close>

text \<open>
  Claim C8.  When the backend answers the request with no hits, the retrieval tool
  returns exactly the fixed nothing-found text, which is not the empty string.
\<close>

theorem rag_zero_hits_message:
  assumes "search_records (rag_request query session_id bot_id) = Inr []"
  shows "rag_retrieval_tool search_records query session_id bot_id = Inr nothing_found
         \<and> nothing_found \<noteq> []"
  using assms
  by (simp add: rag_retrieval_tool_def rag_retrieval_body_def except_Exception_Inr)

text \<open>A backend that finds nothing.\<close>

theorem rag_zero_hits_message_witness:
  "rag_retrieval_tool (\<lambda>request. Inr []) ''[BOT_ID: acme] opening hours'' None None
     = Inr nothing_found"
proof -
  have h: "(\<lambda>request. Inr []) (rag_request ''[BOT_ID: acme] opening hours'' None None)
             = (Inr [] :: exn + string list)"
    by simp
  from rag_zero_hits_message [of "\<lambda>request. Inr []", OF h] show ?thesis by simp
qed

subsection \<open>The form URL\<close>

text \<open>
  Claim C7.  Whenever a form tool succeeds, it returns the JSON text of the success
  payload, and the \<open>form_url\<close> of that payload is the selected template followed by
  \<open>session_id=<id>&ts=<ts>\<close>, joined by \<open>&\<close> when the template contains a \<open>?\<close> and by
  \<open>?\<close> when it contains none; \<open><id>\<close> is the resolved session id and \<open><ts>\<close> the clock
  reading in decimal.  The last clause is the JSON text of a success payload.
\<close>

theorem form_url_appends_session_and_ts:
  "(book_appointment_body cfg ts query session_id bot_id = Inr payload \<longrightarrow>
      (\<exists>template.
         (if snd (resolve_form_context query session_id bot_id) = Some ''fp01''
          then FORM_URL_2 cfg else FORM_URL_1 cfg) = Some template
         \<and> payload =
             success_payload book_reply
               (template @ (if CHR ''?'' \<in> set template then ''&'' else ''?'')
                @ ''session_id=''
                @ session_or_fallback (fst (resolve_form_context query session_id bot_id))
                @ ''&ts='' @ str_int ts)
               (session_or_fallback (fst (resolve_form_context query session_id bot_id)))
         \<and> book_appointment_tool cfg ts query session_id bot_id = Inr (json_dumps payload)))
   \<and> (cancel_appointment_body cfg ts query session_id bot_id = Inr payload \<longrightarrow>
      (\<exists>template.
         cancelAppointmentFormUrl cfg = Some template
         \<and> payload =
             success_payload cancel_reply
               (template @ (if CHR ''?'' \<in> set template then ''&'' else ''?'')
                @ ''session_id=''
                @ session_or_fallback (fst (resolve_form_context query session_id bot_id))
                @ ''&ts='' @ str_int ts)
               (session_or_fallback (fst (resolve_form_context query session_id bot_id)))
         \<and> cancel_appointment_tool cfg ts query session_id bot_id = Inr (json_dumps payload)))
   \<and> (reschedule_appointment_body cfg ts query session_id bot_id = Inr payload \<longrightarrow>
      (\<exists>template.
         rescheduleAppointmentFormUrl cfg = Some template
         \<and> payload =
             success_payload reschedule_reply
               (template @ (if CHR ''?'' \<in> set template then ''&'' else ''?'')
                @ ''session_id=''
                @ session_or_fallback (fst (resolve_form_context query session_id bot_id))
                @ ''&ts='' @ str_int ts)
               (session_or_fallback (fst (resolve_form_context query session_id bot_id)))
         \<and> reschedule_appointment_tool cfg ts query session_id bot_id
             = Inr (json_dumps payload)))
   \<and> json_dumps (success_payload reply url sid) =
       ''{'' @ [CHR 0x22] @ ''reply'' @ [CHR 0x22] @ '': '' @ json_string reply @ '', ''
       @ [CHR 0x22] @ ''form_url'' @ [CHR 0x22] @ '': '' @ json_string url @ '', ''
       @ [CHR 0x22] @ ''success'' @ [CHR 0x22] @ '': true, ''
       @ [CHR 0x22] @ ''session_id'' @ [CHR 0x22] @ '': '' @ json_string sid @ ''}''"
proof (intro conjI impI)
  assume a: "book_appointment_body cfg ts query session_id bot_id = Inr payload"
  from a book_tool_of_body(1) [OF a] show "\<exists>template.
         (if snd (resolve_form_context query session_id bot_id) = Some ''fp01''
          then FORM_URL_2 cfg else FORM_URL_1 cfg) = Some template
         \<and> payload =
             success_payload book_reply
               (template @ (if CHR ''?'' \<in> set template then ''&'' else ''?'')
                @ ''session_id=''
                @ session_or_fallback (fst (resolve_form_context query session_id bot_id))
                @ ''&ts='' @ str_int ts)
               (session_or_fallback (fst (resolve_form_context query session_id bot_id)))
         \<and> book_appointment_tool cfg ts query session_id bot_id = Inr (json_dumps payload)"
    unfolding book_appointment_body_eq by (auto split: option.splits)
next
  assume a: "cancel_appointment_body cfg ts query session_id bot_id = Inr payload"
  from a cancel_tool_of_body(1) [OF a] show "\<exists>template.
         cancelAppointmentFormUrl cfg = Some template
         \<and> payload =
             success_payload cancel_reply
               (template @ (if CHR ''?'' \<in> set template then ''&'' else ''?'')
                @ ''session_id=''
                @ session_or_fallback (fst (resolve_form_context query session_id bot_id))
                @ ''&ts='' @ str_int ts)
               (session_or_fallback (fst (resolve_form_context query session_id bot_id)))
         \<and> cancel_appointment_tool cfg ts query session_id bot_id = Inr (json_dumps payload)"
    unfolding cancel_appointment_body_eq by (auto split: option.splits)
next
  assume a: "reschedule_appointment_body cfg ts query session_id bot_id = Inr payload"
  from a reschedule_tool_of_body(1) [OF a] show "\<exists>template.
         rescheduleAppointmentFormUrl cfg = Some template
         \<and> payload =
             success_payload reschedule_reply
               (template @ (if CHR ''?'' \<in> set template then ''&'' else ''?'')
                @ ''session_id=''
                @ session_or_fallback (fst (resolve_form_context query session_id bot_id))
                @ ''&ts='' @ str_int ts)
               (session_or_fallback (fst (resolve_form_context query session_id bot_id)))
         \<and> reschedule_appointment_tool cfg ts query session_id bot_id
             = Inr (json_dumps payload)"
    unfolding reschedule_appointment_body_eq by (auto split: option.splits)
next
  show "json_dumps (success_payload reply url sid) =
       ''{'' @ [CHR 0x22] @ ''reply'' @ [CHR 0x22] @ '': '' @ json_string reply @ '', ''
       @ [CHR 0x22] @ ''form_url'' @ [CHR 0x22] @ '': '' @ json_string url @ '', ''
       @ [CHR 0x22] @ ''success'' @ [CHR 0x22] @ '': true, ''
       @ [CHR 0x22] @ ''session_id'' @ [CHR 0x22] @ '': '' @ json_string sid @ ''}''"
    by (rule json_dumps_success)
qed

text \<open>
  The booking form of the reserved tenant, whose template already has a query string:
  what the tool returns.
\<close>

theorem form_url_appends_session_and_ts_witness:
  "book_appointment_tool sample_config 1723
       ''[SESSION_ID: s1] [BOT_ID: fp01] book me in'' None None
     = Inr (json_dumps
              (success_payload book_reply
                 (''https://forms.example/book?tenant=fp01'' @ ''&'' @ ''session_id=''
                  @ ''s1'' @ ''&ts='' @ ''1723'')
                 ''s1''))"
proof -
  have r: "resolve_form_context ''[SESSION_ID: s1] [BOT_ID: fp01] book me in'' None None
             = (Some ''s1'', Some ''fp01'')"
    by code_simp
  have e: "book_appointment_body sample_config 1723
             ''[SESSION_ID: s1] [BOT_ID: fp01] book me in'' None None
           = Inr (success_payload book_reply
                    ''https://forms.example/book?tenant=fp01&session_id=s1&ts=1723'' ''s1'')"
    by (simp add: book_appointment_body_eq r session_or_fallback_def sample_config_def
          str_int_1723)
  from form_url_appends_session_and_ts
         [of sample_config 1723 "''[SESSION_ID: s1] [BOT_ID: fp01] book me in''" None None
             "success_payload book_reply
                ''https://forms.example/book?tenant=fp01&session_id=s1&ts=1723'' ''s1''"
             "[]" "[]" "[]"]
       e
  have "book_appointment_tool sample_config 1723
          ''[SESSION_ID: s1] [BOT_ID: fp01] book me in'' None None
        = Inr (json_dumps
                 (success_payload book_reply
                    ''https://forms.example/book?tenant=fp01&session_id=s1&ts=1723'' ''s1''))"
    by blast
  then show ?thesis by simp
qed

subsection \<open>The fallback session\<close>

lemma fallback_when_no_session:
  "\<not> truthy (tag_value ''SESSION_ID'' query) \<Longrightarrow> \<not> truthy session_id \<Longrightarrow>
     session_or_fallback (fst (resolve_form_context query session_id bot_id))
       = ''fallback-session-id''"
  by (auto simp: resolve_form_context_eq py_or_def session_or_fallback_def truthy_def
           split: option.splits)

lemma book_tool_eq:
  "book_appointment_tool cfg ts query session_id bot_id =
     (case (if snd (resolve_form_context query session_id bot_id) = Some ''fp01''
            then FORM_URL_2 cfg else FORM_URL_1 cfg) of
        None \<Rightarrow> Inr (json_dumps (failure_payload book_apology none_not_iterable))
      | Some template \<Rightarrow>
          Inr (json_dumps
                 (success_payload book_reply
                    (template @ (if CHR ''?'' \<in> set template then ''&'' else ''?'')
                     @ ''session_id=''
                     @ session_or_fallback (fst (resolve_form_context query session_id bot_id))
                     @ ''&ts='' @ str_int ts)
                    (session_or_fallback (fst (resolve_form_context query session_id bot_id))))))"
  by (simp add: book_appointment_tool_def book_appointment_body_eq except_Exception_def
        split: option.splits)

lemma cancel_tool_eq:
  "cancel_appointment_tool cfg ts query session_id bot_id =
     (case cancelAppointmentFormUrl cfg of
        None \<Rightarrow> Inr (json_dumps (failure_payload cancel_apology none_not_iterable))
      | Some template \<Rightarrow>
          Inr (json_dumps
                 (success_payload cancel_reply
                    (template @ (if CHR ''?'' \<in> set template then ''&'' else ''?'')
                     @ ''session_id=''
                     @ session_or_fallback (fst (resolve_form_context query session_id bot_id))
                     @ ''&ts='' @ str_int ts)
                    (session_or_fallback (fst (resolve_form_context query session_id bot_id))))))"
  by (simp add: cancel_appointment_tool_def cancel_appointment_body_eq except_Exception_def
        split: option.splits)

lemma reschedule_tool_eq:
  "reschedule_appointment_tool cfg ts query session_id bot_id =
     (case rescheduleAppointmentFormUrl cfg of
        None \<Rightarrow> Inr (json_dumps (failure_payload reschedule_apology none_not_iterable))
      | Some template \<Rightarrow>
          Inr (json_dumps
                 (success_payload reschedule_reply
                    (template @ (if CHR ''?'' \<in> set template then ''&'' else ''?'')
                     @ ''session_id=''
                     @ session_or_fallback (fst (resolve_form_context query session_id bot_id))
                     @ ''&ts='' @ str_int ts)
                    (session_or_fallback (fst (resolve_form_context query session_id bot_id))))))"
  by (simp add: reschedule_appointment_tool_def reschedule_appointment_body_eq
        except_Exception_def split: option.splits)

lemma json_string_fallback:
  "json_string ''fallback-session-id'' = [CHR 0x22] @ ''fallback-session-id'' @ [CHR 0x22]"
  by (simp add: json_string_def json_escape_char_def)

text \<open>
  Claim C6.  When the query carries no non-empty \<open>SESSION_ID\<close> value and no non-empty
  explicit session id is given, the resolved session id is \<open>fallback-session-id\<close>.  A
  form tool whose URL template is set then returns the JSON text of the success
  payload with that session id and a URL that embeds it; a form tool whose template
  is not set returns the failure payload.  The last clause is the JSON text of such a
  success payload.
\<close>

theorem missing_session_uses_fallback:
  assumes "\<not> truthy (tag_value ''SESSION_ID'' query)" and "\<not> truthy session_id"
  shows "session_or_fallback (fst (resolve_form_context query session_id bot_id))
           = ''fallback-session-id''
     \<and> book_appointment_tool cfg ts query session_id bot_id =
         (case (if snd (resolve_form_context query session_id bot_id) = Some ''fp01''
                then FORM_URL_2 cfg else FORM_URL_1 cfg) of
            None \<Rightarrow> Inr (json_dumps (failure_payload book_apology none_not_iterable))
          | Some template \<Rightarrow>
              Inr (json_dumps
                     (success_payload book_reply
                        (template @ (if CHR ''?'' \<in> set template then ''&'' else ''?'')
                         @ ''session_id=fallback-session-id&ts='' @ str_int ts)
                        ''fallback-session-id'')))
     \<and> cancel_appointment_tool cfg ts query session_id bot_id =
         (case cancelAppointmentFormUrl cfg of
            None \<Rightarrow> Inr (json_dumps (failure_payload cancel_apology none_not_iterable))
          | Some template \<Rightarrow>
              Inr (json_dumps
                     (success_payload cancel_reply
                        (template @ (if CHR ''?'' \<in> set template then ''&'' else ''?'')
                         @ ''session_id=fallback-session-id&ts='' @ str_int ts)
                        ''fallback-session-id'')))
     \<and> reschedule_appointment_tool cfg ts query session_id bot_id =
         (case rescheduleAppointmentFormUrl cfg of
            None \<Rightarrow> Inr (json_dumps (failure_payload reschedule_apology none_not_iterable))
          | Some template \<Rightarrow>
              Inr (json_dumps
                     (success_payload reschedule_reply
                        (template @ (if CHR ''?'' \<in> set template then ''&'' else ''?'')
                         @ ''session_id=fallback-session-id&ts='' @ str_int ts)
                        ''fallback-session-id'')))
     \<and> json_dumps (success_payload reply url ''fallback-session-id'') =
         ''{'' @ [CHR 0x22] @ ''reply'' @ [CHR 0x22] @ '': '' @ json_string reply @ '', ''
         @ [CHR 0x22] @ ''form_url'' @ [CHR 0x22] @ '': '' @ json_string url @ '', ''
         @ [CHR 0x22] @ ''success'' @ [CHR 0x22] @ '': true, ''
         @ [CHR 0x22] @ ''session_id'' @ [CHR 0x22] @ '': ''
         @ [CHR 0x22] @ ''fallback-session-id'' @ [CHR 0x22] @ ''}''"
proof -
  have f: "session_or_fallback (fst (resolve_form_context query session_id bot_id))
             = ''fallback-session-id''"
    using assms by (rule fallback_when_no_session)
  have b: "book_appointment_tool cfg ts query session_id bot_id =
         (case (if snd (resolve_form_context query session_id bot_id) = Some ''fp01''
                then FORM_URL_2 cfg else FORM_URL_1 cfg) of
            None \<Rightarrow> Inr (json_dumps (failure_payload book_apology none_not_iterable))
          | Some template \<Rightarrow>
              Inr (json_dumps
                     (success_payload book_reply
                        (template @ (if CHR ''?'' \<in> set template then ''&'' else ''?'')
                         @ ''session_id=fallback-session-id&ts='' @ str_int ts)
                        ''fallback-session-id'')))"
    unfolding book_tool_eq f by (simp split: option.splits)
  have c: "cancel_appointment_tool cfg ts query session_id bot_id =
         (case cancelAppointmentFormUrl cfg of
            None \<Rightarrow> Inr (json_dumps (failure_payload cancel_apology none_not_iterable))
          | Some template \<Rightarrow>
              Inr (json_dumps
                     (success_payload cancel_reply
                        (template @ (if CHR ''?'' \<in> set template then ''&'' else ''?'')
                         @ ''session_id=fallback-session-id&ts='' @ str_int ts)
                        ''fallback-session-id'')))"
    unfolding cancel_tool_eq f by (simp split: option.splits)
  have r: "reschedule_appointment_tool cfg ts query session_id bot_id =
         (case rescheduleAppointmentFormUrl cfg of
            None \<Rightarrow> Inr (json_dumps (failure_payload reschedule_apology none_not_iterable))
          | Some template \<Rightarrow>
              Inr (json_dumps
                     (success_payload reschedule_reply
                        (template @ (if CHR ''?'' \<in> set template then ''&'' else ''?'')
                         @ ''session_id=fallback-session-id&ts='' @ str_int ts)
                        ''fallback-session-id'')))"
    unfolding reschedule_tool_eq f by (simp split: option.splits)
  have j: "json_dumps (success_payload reply url ''fallback-session-id'') =
         ''{'' @ [CHR 0x22] @ ''reply'' @ [CHR 0x22] @ '': '' @ json_string reply @ '', ''
         @ [CHR 0x22] @ ''form_url'' @ [CHR 0x22] @ '': '' @ json_string url @ '', ''
         @ [CHR 0x22] @ ''success'' @ [CHR 0x22] @ '': true, ''
         @ [CHR 0x22] @ ''session_id'' @ [CHR 0x22] @ '': ''
         @ [CHR 0x22] @ ''fallback-session-id'' @ [CHR 0x22] @ ''}''"
    unfolding json_dumps_success json_string_fallback by simp
  from f b c r j show ?thesis by (intro conjI)
qed

text \<open>A query with a tenant tag and no session: what two of the tools return.\<close>

theorem missing_session_uses_fallback_witness:
  "book_appointment_tool sample_config 1723 ''[BOT_ID: fp01] book me in'' None None =
     Inr (json_dumps
            (success_payload book_reply
               ''https://forms.example/book?tenant=fp01&session_id=fallback-session-id&ts=1723''
               ''fallback-session-id''))
   \<and> cancel_appointment_tool sample_config 1723 ''[BOT_ID: fp01] book me in'' None None =
     Inr (json_dumps
            (success_payload cancel_reply
               ''https://forms.example/cancel?session_id=fallback-session-id&ts=1723''
               ''fallback-session-id''))"
proof -
  have a: "\<not> truthy (tag_value ''SESSION_ID'' ''[BOT_ID: fp01] book me in'')"
    by code_simp
  have b: "\<not> truthy None"
    by (simp add: truthy_def)
  have r: "snd (resolve_form_context ''[BOT_ID: fp01] book me in'' None None) = Some ''fp01''"
    by code_simp
  from missing_session_uses_fallback [OF a b, of None sample_config 1723 "[]" "[]"]
  show ?thesis
    by (simp add: r sample_config_def str_int_1723)
qed

text \<open>
  For claim C6 as first stated, where the call never fails: with no session at all
  and a template that is not set, the tool returns the failure payload.
\<close>

theorem missing_session_unset_template_counterexample:
  "\<not> truthy (tag_value ''SESSION_ID'' ''move my visit'')
   \<and> rescheduleAppointmentFormUrl sample_config = None
   \<and> reschedule_appointment_tool sample_config 1723 ''move my visit'' None None
       = Inr (json_dumps
                [(''reply'', JStr reschedule_apology), (''success'', JBool False),
                 (''error'', JStr none_not_iterable)])"
proof -
  have "\<not> truthy (tag_value ''SESSION_ID'' ''move my visit'')"
    by code_simp
  then show ?thesis
    by (simp add: reschedule_tool_eq sample_config_def failure_payload_def)
qed

subsection \<open>Faults at the tool boundary\<close>

lemma rag_tool_Inl_iff:
  "rag_retrieval_tool search_records query session_id bot_id = Inl e \<longleftrightarrow>
     search_records (rag_request query session_id bot_id) = Inl (Unprintable e)
     \<or> (search_records (rag_request query session_id bot_id) = Inl e \<and> \<not> is_Exception e)"
proof (cases "search_records (rag_request query session_id bot_id)")
  case (Inl x)
  then show ?thesis
    by (cases x) (auto simp: rag_retrieval_tool_def rag_retrieval_body_def except_Exception_def)
next
  case (Inr hits)
  then show ?thesis
    by (simp add: rag_retrieval_tool_def rag_retrieval_body_def except_Exception_def)
qed

text \<open>
  Claim C2.  The handler of every tool catches the instances of \<open>Exception\<close>.  When the
  backend raises one with description \<open>d\<close>, the retrieval tool returns
  \<open>Error retrieving context from Pinecone: d\<close>; when the body of a form tool raises one,
  the tool returns the JSON text of a payload whose \<open>success\<close> is \<open>false\<close> and whose
  \<open>error\<close> is \<open>d\<close>.  The body of a form tool calls no backend and raises only the
  \<open>TypeError\<close> of a template that is not set, so a form tool returns a string on every
  call.  A fault leaves the retrieval tool exactly when the backend raises an exception
  outside \<open>Exception\<close>, which the handler does not catch, or one whose \<open>str(e)\<close> raises
  inside the handler; it returns a string in every other case.
\<close>

theorem faults_caught_at_tool_boundary:
  "(search_records (rag_request query session_id bot_id) = Inl (Exception d) \<longrightarrow>
      rag_retrieval_tool search_records query session_id bot_id
        = Inr (''Error retrieving context from Pinecone: '' @ d))
   \<and> (rag_retrieval_tool search_records query session_id bot_id = Inl e \<longleftrightarrow>
        search_records (rag_request query session_id bot_id) = Inl (Unprintable e)
        \<or> (search_records (rag_request query session_id bot_id) = Inl e \<and> \<not> is_Exception e))
   \<and> (book_appointment_body cfg ts query session_id bot_id = Inl (Exception d) \<longrightarrow>
      book_appointment_tool cfg ts query session_id bot_id
        = Inr (json_dumps [(''reply'', JStr book_apology), (''success'', JBool False),
                           (''error'', JStr d)]))
   \<and> (cancel_appointment_body cfg ts query session_id bot_id = Inl (Exception d) \<longrightarrow>
      cancel_appointment_tool cfg ts query session_id bot_id
        = Inr (json_dumps [(''reply'', JStr cancel_apology), (''success'', JBool False),
                           (''error'', JStr d)]))
   \<and> (reschedule_appointment_body cfg ts query session_id bot_id = Inl (Exception d) \<longrightarrow>
      reschedule_appointment_tool cfg ts query session_id bot_id
        = Inr (json_dumps [(''reply'', JStr reschedule_apology), (''success'', JBool False),
                           (''error'', JStr d)]))
   \<and> (\<exists>out. book_appointment_tool cfg ts query session_id bot_id = Inr out)
   \<and> (\<exists>out. cancel_appointment_tool cfg ts query session_id bot_id = Inr out)
   \<and> (\<exists>out. reschedule_appointment_tool cfg ts query session_id bot_id = Inr out)
   \<and> json_dumps [(''reply'', JStr reply), (''success'', JBool False), (''error'', JStr d)]
        = ''{'' @ [CHR 0x22] @ ''reply'' @ [CHR 0x22] @ '': '' @ json_string reply @ '', ''
          @ [CHR 0x22] @ ''success'' @ [CHR 0x22] @ '': false, ''
          @ [CHR 0x22] @ ''error'' @ [CHR 0x22] @ '': '' @ json_string d @ ''}''"
proof -
  have rag: "search_records (rag_request query session_id bot_id) = Inl (Exception d) \<longrightarrow>
      rag_retrieval_tool search_records query session_id bot_id
        = Inr (''Error retrieving context from Pinecone: '' @ d)"
    by (simp add: rag_retrieval_tool_def rag_retrieval_body_def except_Exception_printable)
  have book: "book_appointment_body cfg ts query session_id bot_id = Inl (Exception d) \<longrightarrow>
      book_appointment_tool cfg ts query session_id bot_id
        = Inr (json_dumps [(''reply'', JStr book_apology), (''success'', JBool False),
                           (''error'', JStr d)])"
    using book_tool_of_body(2) [of cfg ts query session_id bot_id d]
    by (simp add: failure_payload_def)
  have cancel: "cancel_appointment_body cfg ts query session_id bot_id = Inl (Exception d) \<longrightarrow>
      cancel_appointment_tool cfg ts query session_id bot_id
        = Inr (json_dumps [(''reply'', JStr cancel_apology), (''success'', JBool False),
                           (''error'', JStr d)])"
    using cancel_tool_of_body(2) [of cfg ts query session_id bot_id d]
    by (simp add: failure_payload_def)
  have resch: "reschedule_appointment_body cfg ts query session_id bot_id = Inl (Exception d) \<longrightarrow>
      reschedule_appointment_tool cfg ts query session_id bot_id
        = Inr (json_dumps [(''reply'', JStr reschedule_apology), (''success'', JBool False),
                           (''error'', JStr d)])"
    using reschedule_tool_of_body(2) [of cfg ts query session_id bot_id d]
    by (simp add: failure_payload_def)
  have b: "\<exists>out. book_appointment_tool cfg ts query session_id bot_id = Inr out"
    unfolding book_tool_eq by (simp split: option.splits)
  have c: "\<exists>out. cancel_appointment_tool cfg ts query session_id bot_id = Inr out"
    unfolding cancel_tool_eq by (simp split: option.splits)
  have r: "\<exists>out. reschedule_appointment_tool cfg ts query session_id bot_id = Inr out"
    unfolding reschedule_tool_eq by (simp split: option.splits)
  have shape: "json_dumps [(''reply'', JStr reply), (''success'', JBool False),
                  (''error'', JStr d)]
        = ''{'' @ [CHR 0x22] @ ''reply'' @ [CHR 0x22] @ '': '' @ json_string reply @ '', ''
          @ [CHR 0x22] @ ''success'' @ [CHR 0x22] @ '': false, ''
          @ [CHR 0x22] @ ''error'' @ [CHR 0x22] @ '': '' @ json_string d @ ''}''"
    using json_dumps_failure [of reply d] by (simp only: failure_payload_def)
  from rag rag_tool_Inl_iff [of search_records query session_id bot_id e]
       book cancel resch b c r shape
  show ?thesis by (intro conjI)
qed

text \<open>A backend that times out, and a form tool whose template is not set.\<close>

theorem faults_caught_at_tool_boundary_witness:
  "rag_retrieval_tool (failing_backend (Exception ''connection timed out''))
       ''[BOT_ID: acme] opening hours'' None None
     = Inr ''Error retrieving context from Pinecone: connection timed out''
   \<and> reschedule_appointment_tool sample_config 1723 ''move my visit'' None None
     = Inr (''{'' @ [CHR 0x22] @ ''reply'' @ [CHR 0x22] @ '': '' @ json_string reschedule_apology
            @ '', '' @ [CHR 0x22] @ ''success'' @ [CHR 0x22] @ '': false, ''
            @ [CHR 0x22] @ ''error'' @ [CHR 0x22] @ '': '' @ [CHR 0x22]
            @ ''argument of type '' @ [CHR 0x27] @ ''NoneType'' @ [CHR 0x27]
            @ '' is not iterable'' @ [CHR 0x22] @ ''}'')"
proof -
  have b: "reschedule_appointment_body sample_config 1723 ''move my visit'' None None
             = Inl (Exception none_not_iterable)"
    by (simp add: reschedule_appointment_body_eq sample_config_def)
  have j: "json_string none_not_iterable =
             [CHR 0x22] @ ''argument of type '' @ [CHR 0x27] @ ''NoneType'' @ [CHR 0x27]
             @ '' is not iterable'' @ [CHR 0x22]"
    by (simp add: json_string_def json_escape_char_def)
  have f: "failing_backend (Exception ''connection timed out'')
             (rag_request ''[BOT_ID: acme] opening hours'' None None)
           = Inl (Exception ''connection timed out'')"
    by (simp add: failing_backend_def)
  from faults_caught_at_tool_boundary
         [of "failing_backend (Exception ''connection timed out'')"
             "''[BOT_ID: acme] opening hours''" None None "''connection timed out''"
             "Exception []" sample_config 1723 "[]"] f
  have r: "rag_retrieval_tool (failing_backend (Exception ''connection timed out''))
             ''[BOT_ID: acme] opening hours'' None None
           = Inr ''Error retrieving context from Pinecone: connection timed out''"
    by simp
  from faults_caught_at_tool_boundary
         [of "failing_backend (Exception [])" "''move my visit''" None None none_not_iterable
             "Exception []" sample_config 1723 reschedule_apology] b
  have "reschedule_appointment_tool sample_config 1723 ''move my visit'' None None
     = Inr (''{'' @ [CHR 0x22] @ ''reply'' @ [CHR 0x22] @ '': '' @ json_string reschedule_apology
            @ '', '' @ [CHR 0x22] @ ''success'' @ [CHR 0x22] @ '': false, ''
            @ [CHR 0x22] @ ''error'' @ [CHR 0x22] @ '': '' @ json_string none_not_iterable
            @ ''}'')"
    by (simp only:)
  with r j show ?thesis by simp
qed

text \<open>
  For claim C2 as first stated, where no fault crosses the boundary: an interrupt
  raised during the search, and an exception whose \<open>str(e)\<close> raises, leave the
  retrieval tool.
\<close>

theorem fault_crosses_tool_boundary_counterexample:
  "rag_retrieval_tool (failing_backend (BaseException ''KeyboardInterrupt''))
       ''opening hours'' None None
     = Inl (BaseException ''KeyboardInterrupt'')
   \<and> rag_retrieval_tool (failing_backend (Unprintable (Exception ''no description'')))
       ''opening hours'' None None
     = Inl (Exception ''no description'')"
  by (simp add: rag_retrieval_tool_def rag_retrieval_body_def failing_backend_def
        except_Exception_def)

subsection \<open>Messages without tags\<close>

lemma starts_with_tag_prefix_open:
  "starts_with (tag_prefix key) s \<Longrightarrow> \<exists>t. s = CHR ''['' # t"
  by (cases s) (simp_all add: tag_prefix_def)

lemma match_delete_needs_open: "match_delete key s = Some rest \<Longrightarrow> \<exists>t. s = CHR ''['' # t"
  by (auto simp: match_delete_def dest: starts_with_tag_prefix_open split: if_splits)

lemma match_capture_needs_open: "match_capture key s = Some v \<Longrightarrow> \<exists>t. s = CHR ''['' # t"
  by (auto dest: match_capture_needs_prefix starts_with_tag_prefix_open)

lemma match_delete_other_char: "CHR ''['' \<noteq> c \<Longrightarrow> match_delete key (c # s) = None"
  using match_delete_needs_open [of key "c # s"]
  by (cases "match_delete key (c # s)") auto

lemma match_capture_other_char: "CHR ''['' \<noteq> c \<Longrightarrow> match_capture key (c # s) = None"
  using match_capture_needs_open [of key "c # s"]
  by (cases "match_capture key (c # s)") auto

lemma match_delete_Nil: "match_delete key [] = None"
  by (simp add: match_delete_def tag_prefix_def)

lemma match_capture_Nil: "match_capture key [] = None"
  by (simp add: match_capture_def tag_prefix_def)

lemma sub_tag_plain_append:
  "CHR ''['' \<notin> set x \<Longrightarrow> sub_tag key (x @ r) = x @ sub_tag key r"
  by (induction x) (simp_all add: match_delete_other_char)

lemma sub_tag_plain: "CHR ''['' \<notin> set x \<Longrightarrow> sub_tag key x = x"
  using sub_tag_plain_append [of x key "[]"] by simp

lemma search_capture_plain_append:
  "CHR ''['' \<notin> set x \<Longrightarrow>
     re_search (match_capture key) (x @ r) = re_search (match_capture key) r"
  by (induction x) (simp_all add: match_capture_other_char)

lemma search_capture_plain: "CHR ''['' \<notin> set x \<Longrightarrow> re_search (match_capture key) x = None"
  using search_capture_plain_append [of x key "[]"] by (simp add: match_capture_Nil)

lemma tag_value_plain: "CHR ''['' \<notin> set x \<Longrightarrow> tag_value key x = None"
  by (simp add: tag_value_def search_capture_plain)

lemma re_search_None_iff:
  "re_search f s = None \<longleftrightarrow> f [] = None \<and> (\<forall>n < length s. f (drop n s) = None)"
proof (induction s)
  case Nil
  then show ?case by simp
next
  case (Cons c s)
  have "(\<forall>n < length (c # s). f (drop n (c # s)) = None)
          \<longleftrightarrow> f (c # s) = None \<and> (\<forall>n < length s. f (drop n s) = None)"
    by (auto simp: less_Suc_eq_0_disj)
  with Cons show ?case by (auto split: option.splits)
qed

lemma match_capture_None_if_delete_None:
  "match_delete key s = None \<Longrightarrow> match_capture key s = None"
proof -
  assume d: "match_delete key s = None"
  have "\<not> (starts_with (tag_prefix key) s
            \<and> CHR '']'' \<in> set (drop (length (tag_prefix key)) s))"
    using d by (simp add: match_delete_eq split: if_splits)
  then have "map_option strip (match_capture key s) = None"
    by (auto simp: match_capture_strip)
  then show ?thesis by simp
qed

lemma no_tag_no_capture:
  "\<not> has_tag key m \<Longrightarrow> re_search (match_capture key) m = None"
  unfolding has_tag_def re_search_None_iff
  by (simp add: match_capture_None_if_delete_None)

lemma no_tag_no_value: "\<not> has_tag key m \<Longrightarrow> tag_value key m = None"
  by (simp add: tag_value_def no_tag_no_capture)

lemma no_tag_sub_tag: "\<not> has_tag key m \<Longrightarrow> sub_tag key m = m"
  unfolding has_tag_def
  by (induction m) (auto split: option.splits)

lemma has_tag_needs_prefix: "has_tag key m \<Longrightarrow> in_str (tag_prefix key) m"
proof (induction m)
  case Nil
  then show ?case by (simp add: has_tag_def match_delete_Nil)
next
  case (Cons c m)
  then show ?case
    by (auto simp: has_tag_def match_delete_def split: option.splits if_splits)
qed

lemma no_prefix_no_tag:
  assumes "\<not> has_tag_prefix q"
  shows "\<not> has_tag ''SESSION_ID'' q" and "\<not> has_tag ''PATH'' q" and "\<not> has_tag ''BOT_ID'' q"
proof -
  have np: "\<not> in_str ''[SESSION_ID:'' q" "\<not> in_str ''[PATH:'' q" "\<not> in_str ''[BOT_ID:'' q"
    using assms by (cases q; simp add: has_tag_prefix_def)+
  show "\<not> has_tag ''SESSION_ID'' q"
    using np(1) has_tag_needs_prefix [of "''SESSION_ID''" q] by (auto simp: tag_prefix_def)
  show "\<not> has_tag ''PATH'' q"
    using np(2) has_tag_needs_prefix [of "''PATH''" q] by (auto simp: tag_prefix_def)
  show "\<not> has_tag ''BOT_ID'' q"
    using np(3) has_tag_needs_prefix [of "''BOT_ID''" q] by (auto simp: tag_prefix_def)
qed

text \<open>
  Claim C5.  For a message with no complete tag of any of the three keys, the
  extractor returns \<open>None\<close> for the session id, the path and the tenant, and the
  message with its leading and trailing whitespace trimmed as the clean message.  A tool
  calls the extractor only on a message that contains one of the three tag prefixes:
  the retrieval tool searches with the trimmed message then, and with the message
  unchanged otherwise; the explicit arguments are kept in both cases.
\<close>

theorem untagged_message_is_trimmed:
  assumes "\<not> has_tag ''SESSION_ID'' message"
    and "\<not> has_tag ''PATH'' message"
    and "\<not> has_tag ''BOT_ID'' message"
  shows "extract_context_from_message message =
           \<lparr> ctx_session_id = None, ctx_path = None, ctx_bot_id = None,
             clean_message = strip message \<rparr>
         \<and> rag_resolve message session_id bot_id =
             (if has_tag_prefix message then strip message else message, session_id, bot_id)
         \<and> resolve_form_context message session_id bot_id = (session_id, bot_id)"
  using assms
  by (simp add: extract_context_from_message_def no_tag_no_value no_tag_sub_tag
        rag_resolve_eq resolve_form_context_eq truthy_def)

text \<open>A message with brackets and an unclosed tag, and a message with no bracket.\<close>

theorem untagged_message_is_trimmed_witness:
  "extract_context_from_message '' see [1] and [PATH: x ''
     = \<lparr> ctx_session_id = None, ctx_path = None, ctx_bot_id = None,
         clean_message = ''see [1] and [PATH: x'' \<rparr>
   \<and> rag_resolve '' what are your hours? '' None (Some ''acme'')
     = ('' what are your hours? '', None, Some ''acme'')"
proof -
  have a: "\<not> has_tag ''SESSION_ID'' '' see [1] and [PATH: x ''"
          "\<not> has_tag ''PATH'' '' see [1] and [PATH: x ''"
          "\<not> has_tag ''BOT_ID'' '' see [1] and [PATH: x ''"
    by code_simp+
  have b: "\<not> has_tag ''SESSION_ID'' '' what are your hours? ''"
          "\<not> has_tag ''PATH'' '' what are your hours? ''"
          "\<not> has_tag ''BOT_ID'' '' what are your hours? ''"
    by code_simp+
  have s: "strip '' see [1] and [PATH: x '' = ''see [1] and [PATH: x''"
    by code_simp
  have g: "\<not> has_tag_prefix '' what are your hours? ''"
    by code_simp
  from untagged_message_is_trimmed [OF a, of None None]
       untagged_message_is_trimmed [OF b, of None "Some ''acme''"]
  show ?thesis
    by (simp add: s g)
qed

text \<open>
  For claim C5 as first stated, with the message returned unchanged: a message with an
  unclosed tag and a leading space has no tag value and no complete tag, and both the
  extractor and the retrieval tool trim it.
\<close>

theorem untagged_message_unchanged_counterexample:
  "tag_value ''SESSION_ID'' '' [PATH: x'' = None
   \<and> tag_value ''PATH'' '' [PATH: x'' = None
   \<and> tag_value ''BOT_ID'' '' [PATH: x'' = None
   \<and> \<not> has_tag ''SESSION_ID'' '' [PATH: x''
   \<and> \<not> has_tag ''PATH'' '' [PATH: x''
   \<and> \<not> has_tag ''BOT_ID'' '' [PATH: x''
   \<and> clean_message (extract_context_from_message '' [PATH: x'') = ''[PATH: x''
   \<and> clean_message (extract_context_from_message '' [PATH: x'') \<noteq> '' [PATH: x''
   \<and> fst (rag_resolve '' [PATH: x'' None None) = ''[PATH: x''
   \<and> fst (rag_resolve '' [PATH: x'' None None) \<noteq> '' [PATH: x''"
  by code_simp

subsection \<open>Extraction of well-formed messages\<close>

lemma render_Nil [simp]: "render [] = []"
  by (simp add: render_def)

lemma render_Cons [simp]: "render (p # ps) = render_piece p @ render ps"
  by (simp add: render_def)

lemma well_formed_Cons [simp]:
  "well_formed (p # ps) \<longleftrightarrow> well_formed_piece p \<and> well_formed ps"
  by (simp add: well_formed_def)

lemma well_formed_Nil [simp]: "well_formed []"
  by (simp add: well_formed_def)

lemma sub_tag_at_match: "match_delete key s = Some rest \<Longrightarrow> sub_tag key s = sub_tag key rest"
  by (cases s) (simp_all add: match_delete_Nil)

lemma match_delete_own_tag:
  "CHR '']'' \<notin> set v \<Longrightarrow>
     match_delete key (tag_prefix key @ v @ '']'' @ rest) = Some (dropWhile is_space rest)"
proof -
  assume v: "CHR '']'' \<notin> set v"
  have "dropWhile (\<lambda>c. c \<noteq> CHR '']'') (v @ '']'' @ rest) = '']'' @ rest"
    using v by (induction v) auto
  then show ?thesis
    by (simp add: match_delete_eq starts_with_append)
qed

lemma other_key_no_match:
  "k \<in> set [''SESSION_ID'', ''PATH'', ''BOT_ID''] \<Longrightarrow>
   key \<in> set [''SESSION_ID'', ''PATH'', ''BOT_ID''] \<Longrightarrow> k \<noteq> key \<Longrightarrow>
     \<not> starts_with (tag_prefix key) (tag_prefix k @ rest)"
  by (auto simp: tag_prefix_def)

lemma key_has_no_open:
  "k \<in> set [''SESSION_ID'', ''PATH'', ''BOT_ID''] \<Longrightarrow> CHR ''['' \<notin> set k"
  by auto

lemma sub_tag_other_tag:
  assumes "k \<in> set [''SESSION_ID'', ''PATH'', ''BOT_ID'']"
    and "key \<in> set [''SESSION_ID'', ''PATH'', ''BOT_ID'']" and "k \<noteq> key"
    and "CHR ''['' \<notin> set v"
  shows "sub_tag key (tag_prefix k @ v @ '']'' @ rest) = tag_prefix k @ v @ '']'' @ sub_tag key rest"
proof -
  have nm: "match_delete key (tag_prefix k @ v @ '']'' @ rest) = None"
    using other_key_no_match [OF assms(1-3)] by (simp add: match_delete_def)
  have plain: "CHR ''['' \<notin> set (k @ '':'' @ v @ '']'')"
    using key_has_no_open [OF assms(1)] assms(4) by simp
  have "sub_tag key (CHR ''['' # (k @ '':'' @ v @ '']'') @ rest)
          = CHR ''['' # sub_tag key ((k @ '':'' @ v @ '']'') @ rest)"
    using nm by (simp add: tag_prefix_def)
  also have "\<dots> = CHR ''['' # (k @ '':'' @ v @ '']'') @ sub_tag key rest"
    using sub_tag_plain_append [OF plain, of key rest] by (simp only:)
  finally show ?thesis by (simp add: tag_prefix_def)
qed

lemma tag_prefix_not_space: "dropWhile is_space (tag_prefix k @ rest) = tag_prefix k @ rest"
  by (simp add: tag_prefix_def is_space_def)

lemma sub_tag_render:
  assumes key: "key \<in> set [''SESSION_ID'', ''PATH'', ''BOT_ID'']"
  shows "well_formed ps \<Longrightarrow>
     sub_tag key (render ps) = render (del_tag key False ps)
     \<and> sub_tag key (dropWhile is_space (render ps)) = render (del_tag key True ps)"
proof (induction ps)
  case Nil
  then show ?case by simp
next
  case (Cons p ps)
  then have ih1: "sub_tag key (render ps) = render (del_tag key False ps)"
    and ih2: "sub_tag key (dropWhile is_space (render ps)) = render (del_tag key True ps)"
    by simp_all
  show ?case
  proof (cases p)
    case (Text c)
    with Cons.prems have c: "CHR ''['' \<noteq> c" by auto
    then have "sub_tag key (c # render ps) = c # sub_tag key (render ps)"
      by (simp add: match_delete_other_char)
    with Text ih1 ih2 show ?thesis by simp
  next
    case (Tag k v)
    with Cons.prems have k: "k \<in> set [''SESSION_ID'', ''PATH'', ''BOT_ID'']"
      and v: "CHR ''['' \<notin> set v" "CHR '']'' \<notin> set v"
      by simp_all
    have ns: "dropWhile is_space (render (p # ps)) = render (p # ps)"
      using Tag by (simp add: tag_prefix_not_space)
    show ?thesis
    proof (cases "k = key")
      case True
      have "sub_tag key (tag_prefix key @ v @ '']'' @ render ps)
              = sub_tag key (dropWhile is_space (render ps))"
        using match_delete_own_tag [OF v(2)] by (rule sub_tag_at_match)
      with True Tag ih2 ns show ?thesis by simp
    next
      case False
      have "sub_tag key (tag_prefix k @ v @ '']'' @ render ps)
              = tag_prefix k @ v @ '']'' @ sub_tag key (render ps)"
        using k key False v(1) by (rule sub_tag_other_tag)
      with False Tag ih1 ns show ?thesis by simp
    qed
  qed
qed

lemma del_tag_subset: "p \<in> set (del_tag key after ps) \<Longrightarrow> p \<in> set ps"
  by (induction key after ps rule: del_tag.induct) (auto split: if_splits)

lemma del_tag_removes: "Tag key v \<notin> set (del_tag key after ps)"
  by (induction key after ps rule: del_tag.induct) auto

lemma well_formed_del_tag: "well_formed ps \<Longrightarrow> well_formed (del_tag key after ps)"
  by (auto simp: well_formed_def list_all_iff dest: del_tag_subset)

lemma tags_removed_del_tag:
  "tags_removed f (del_tag key g ps) = tags_removed (f \<or> g) ps"
proof (induction ps arbitrary: f g)
  case Nil
  then show ?case by simp
next
  case (Cons p ps)
  then show ?case by (cases p) auto
qed


lemma three_passes_text:
  assumes "well_formed ps"
  shows "list_all is_text
           (del_tag ''BOT_ID'' f3 (del_tag ''PATH'' f2 (del_tag ''SESSION_ID'' f1 ps)))"
proof -
  let ?p1 = "del_tag ''SESSION_ID'' f1 ps"
  let ?p2 = "del_tag ''PATH'' f2 ?p1"
  let ?p3 = "del_tag ''BOT_ID'' f3 ?p2"
  have "is_text p" if p: "p \<in> set ?p3" for p
  proof (cases p)
    case (Text c)
    then show ?thesis by simp
  next
    case (Tag k v)
    have in2: "p \<in> set ?p2" using p by (rule del_tag_subset)
    then have in1: "p \<in> set ?p1" by (rule del_tag_subset)
    then have in0: "p \<in> set ps" by (rule del_tag_subset)
    have "well_formed_piece p"
      using assms in0 by (simp add: well_formed_def list_all_iff)
    then have "k \<in> set [''SESSION_ID'', ''PATH'', ''BOT_ID'']"
      using Tag by simp
    moreover have "k \<noteq> ''BOT_ID''"
      using p Tag del_tag_removes [of "''BOT_ID''" v f3 ?p2] by auto
    moreover have "k \<noteq> ''PATH''"
      using in2 Tag del_tag_removes [of "''PATH''" v f2 ?p1] by auto
    moreover have "k \<noteq> ''SESSION_ID''"
      using in1 Tag del_tag_removes [of "''SESSION_ID''" v f1 ps] by auto
    ultimately show ?thesis by simp
  qed
  then show ?thesis by (simp add: list_all_iff)
qed

lemma tags_removed_text: "list_all is_text ps \<Longrightarrow> tags_removed False ps = ps"
proof (induction ps)
  case Nil
  then show ?case by simp
next
  case (Cons p ps)
  then show ?case by (cases p) simp_all
qed

lemma three_passes_tags_removed:
  assumes "well_formed ps"
  shows "del_tag ''BOT_ID'' False (del_tag ''PATH'' False (del_tag ''SESSION_ID'' False ps))
           = tags_removed False ps"
proof -
  let ?p3 = "del_tag ''BOT_ID'' False (del_tag ''PATH'' False (del_tag ''SESSION_ID'' False ps))"
  have "?p3 = tags_removed False ?p3"
    using three_passes_text [OF assms] by (simp add: tags_removed_text)
  also have "\<dots> = tags_removed False ps"
    by (simp add: tags_removed_del_tag)
  finally show ?thesis .
qed

lemma sub_tags_render:
  assumes "well_formed ps"
  shows "sub_tag ''BOT_ID'' (sub_tag ''PATH'' (sub_tag ''SESSION_ID'' (render ps)))
           = render (tags_removed False ps)"
proof -
  have w1: "well_formed (del_tag ''SESSION_ID'' False ps)"
    using assms by (rule well_formed_del_tag)
  then have w2: "well_formed (del_tag ''PATH'' False (del_tag ''SESSION_ID'' False ps))"
    by (rule well_formed_del_tag)
  have "sub_tag ''SESSION_ID'' (render ps) = render (del_tag ''SESSION_ID'' False ps)"
    using sub_tag_render [of "''SESSION_ID''" ps] assms by simp
  moreover have "sub_tag ''PATH'' (render (del_tag ''SESSION_ID'' False ps))
         = render (del_tag ''PATH'' False (del_tag ''SESSION_ID'' False ps))"
    using sub_tag_render [of "''PATH''" "del_tag ''SESSION_ID'' False ps"] w1 by simp
  moreover have
    "sub_tag ''BOT_ID'' (render (del_tag ''PATH'' False (del_tag ''SESSION_ID'' False ps)))
       = render (del_tag ''BOT_ID'' False
                  (del_tag ''PATH'' False (del_tag ''SESSION_ID'' False ps)))"
    using sub_tag_render
            [of "''BOT_ID''" "del_tag ''PATH'' False (del_tag ''SESSION_ID'' False ps)"] w2
    by simp
  ultimately show ?thesis
    using three_passes_tags_removed [OF assms] by simp
qed

lemma tags_removed_plain:
  assumes "well_formed ps"
  shows "CHR ''['' \<notin> set (render (tags_removed False ps))"
proof -
  let ?p3 = "del_tag ''BOT_ID'' False (del_tag ''PATH'' False (del_tag ''SESSION_ID'' False ps))"
  have t: "list_all is_text ?p3"
    using assms by (rule three_passes_text)
  have w: "well_formed ?p3"
    using assms by (intro well_formed_del_tag)
  have "list_all is_text qs \<Longrightarrow> well_formed qs \<Longrightarrow> CHR ''['' \<notin> set (render qs)" for qs
  proof (induction qs)
    case Nil
    then show ?case by simp
  next
    case (Cons q qs)
    then show ?case by (cases q) auto
  qed
  from this [OF t w] show ?thesis
    using three_passes_tags_removed [OF assms] by simp
qed

lemma set_strip: "set (strip s) \<subseteq> set s"
  by (auto simp: strip_def dest!: set_dropWhileD)

lemma strip_idem: "strip (strip s) = strip s"
proof -
  define t where "t = dropWhile is_space s"
  define u where "u = rev (dropWhile is_space (rev t))"
  have u_take: "u = take (length u) t"
  proof -
    have "rev t = takeWhile is_space (rev t) @ dropWhile is_space (rev t)" by simp
    then have "t = rev (dropWhile is_space (rev t)) @ rev (takeWhile is_space (rev t))"
      by (metis rev_append rev_rev_ident)
    then have "t = u @ rev (takeWhile is_space (rev t))" by (simp add: u_def)
    then show ?thesis by (metis append_eq_conv_conj)
  qed
  have t_hd: "t = [] \<or> \<not> is_space (hd t)"
    unfolding t_def using hd_dropWhile [of is_space s] by blast
  have "u = [] \<or> \<not> is_space (hd u)"
  proof (cases "u = []")
    case True
    then show ?thesis by simp
  next
    case False
    then have "hd u = hd t" using u_take by (metis hd_take length_greater_0_conv)
    moreover have "t \<noteq> []" using False u_take by auto
    ultimately show ?thesis using t_hd by simp
  qed
  then have du: "dropWhile is_space u = u"
    by (cases u) auto
  have "rev (dropWhile is_space (rev u)) = u"
    by (simp add: u_def)
  with du show ?thesis
    by (simp add: strip_def t_def [symmetric] u_def [symmetric])
qed

lemma length_sub_tag_le: "length (sub_tag key s) \<le> length s"
proof (induction key s rule: sub_tag.induct)
  case (1 key)
  then show ?case by simp
next
  case (2 key c cs)
  show ?case
  proof (cases "match_delete key (c # cs)")
    case None
    with 2 show ?thesis by simp
  next
    case (Some rest)
    with 2 have "length (sub_tag key rest) \<le> length rest" by simp
    with match_delete_shorter [OF Some] Some show ?thesis by simp
  qed
qed

lemma length_sub_tag_less: "has_tag key s \<Longrightarrow> length (sub_tag key s) < length s"
proof (induction s)
  case Nil
  then show ?case by (simp add: has_tag_def match_delete_Nil)
next
  case (Cons c cs)
  show ?case
  proof (cases "match_delete key (c # cs)")
    case None
    with Cons.prems have "has_tag key cs" by (simp add: has_tag_def)
    with Cons.IH None show ?thesis by simp
  next
    case (Some rest)
    with match_delete_shorter [OF Some] length_sub_tag_le [of key rest]
    show ?thesis by simp
  qed
qed

lemma length_strip_le: "length (strip s) \<le> length s"
proof -
  have "length (strip s) \<le> length (dropWhile is_space s)"
    using length_dropWhile_le [of is_space "rev (dropWhile is_space s)"]
    by (simp add: strip_def)
  also have "\<dots> \<le> length s" by (rule length_dropWhile_le)
  finally show ?thesis .
qed

lemma clean_message_shorter:
  assumes "has_tag ''SESSION_ID'' s \<or> has_tag ''PATH'' s \<or> has_tag ''BOT_ID'' s"
  shows "length (clean_message (extract_context_from_message s)) < length s"
proof -
  let ?s1 = "sub_tag ''SESSION_ID'' s"
  let ?s2 = "sub_tag ''PATH'' ?s1"
  let ?s3 = "sub_tag ''BOT_ID'' ?s2"
  have l1: "length ?s1 \<le> length s" and l2: "length ?s2 \<le> length ?s1"
    and l3: "length ?s3 \<le> length ?s2"
    by (rule length_sub_tag_le)+
  have "length ?s3 < length s"
  proof (cases "has_tag ''SESSION_ID'' s")
    case True
    then have "length ?s1 < length s" by (rule length_sub_tag_less)
    with l2 l3 show ?thesis by simp
  next
    case no1: False
    then have e1: "?s1 = s" by (rule no_tag_sub_tag)
    show ?thesis
    proof (cases "has_tag ''PATH'' s")
      case True
      then have "length (sub_tag ''PATH'' s) < length s" by (rule length_sub_tag_less)
      with l3 e1 show ?thesis by simp
    next
      case no2: False
      then have e2: "sub_tag ''PATH'' s = s" by (rule no_tag_sub_tag)
      from assms no1 no2 have "has_tag ''BOT_ID'' s" by simp
      then have "length (sub_tag ''BOT_ID'' s) < length s" by (rule length_sub_tag_less)
      with e1 e2 show ?thesis by simp
    qed
  qed
  with length_strip_le [of ?s3] show ?thesis
    by (simp add: extract_context_from_message_def)
qed

lemma clean_message_strip:
  "strip (clean_message (extract_context_from_message m))
     = clean_message (extract_context_from_message m)"
  by (simp add: extract_context_from_message_def strip_idem)

lemma reextraction_fixed_iff:
  "extract_context_from_message (clean_message (extract_context_from_message m))
       = \<lparr> ctx_session_id = None, ctx_path = None, ctx_bot_id = None,
           clean_message = clean_message (extract_context_from_message m) \<rparr>
   \<longleftrightarrow> \<not> has_tag ''SESSION_ID'' (clean_message (extract_context_from_message m))
       \<and> \<not> has_tag ''PATH'' (clean_message (extract_context_from_message m))
       \<and> \<not> has_tag ''BOT_ID'' (clean_message (extract_context_from_message m))"
proof -
  let ?clean = "clean_message (extract_context_from_message m)"
  show ?thesis
  proof
    assume fixed: "extract_context_from_message ?clean
       = \<lparr> ctx_session_id = None, ctx_path = None, ctx_bot_id = None,
           clean_message = ?clean \<rparr>"
    then have "clean_message (extract_context_from_message ?clean) = ?clean" by simp
    then have "\<not> length (clean_message (extract_context_from_message ?clean)) < length ?clean"
      by simp
    with clean_message_shorter [of ?clean]
    show "\<not> has_tag ''SESSION_ID'' ?clean \<and> \<not> has_tag ''PATH'' ?clean
            \<and> \<not> has_tag ''BOT_ID'' ?clean"
      by blast
  next
    assume "\<not> has_tag ''SESSION_ID'' ?clean \<and> \<not> has_tag ''PATH'' ?clean
              \<and> \<not> has_tag ''BOT_ID'' ?clean"
    then show "extract_context_from_message ?clean
       = \<lparr> ctx_session_id = None, ctx_path = None, ctx_bot_id = None,
           clean_message = ?clean \<rparr>"
      using clean_message_strip [of m]
      by (simp add: extract_context_from_message_def [of ?clean] no_tag_no_value
            no_tag_sub_tag)
  qed
qed

text \<open>
  Claim C4.  For every message made of plain characters other than \<open>[\<close> and of tags
  of the three keys whose values hold no bracket, in any order and spacing, the clean
  message is the message with every tag removed, each with the whitespace after it,
  and trimmed; it holds no \<open>[\<close>, and extracting from it again gives the same clean
  message and no tag value.  For every message at all, extracting again from the
  clean message changes nothing and finds nothing exactly when the clean message has
  no complete tag.
\<close>

theorem extraction_of_well_formed_message:
  "(well_formed ps \<longrightarrow>
      clean_message (extract_context_from_message (render ps))
        = strip (render (tags_removed False ps))
      \<and> CHR ''['' \<notin> set (clean_message (extract_context_from_message (render ps)))
      \<and> extract_context_from_message
            (clean_message (extract_context_from_message (render ps)))
          = \<lparr> ctx_session_id = None, ctx_path = None, ctx_bot_id = None,
              clean_message = clean_message (extract_context_from_message (render ps)) \<rparr>)
   \<and> (extract_context_from_message (clean_message (extract_context_from_message m))
         = \<lparr> ctx_session_id = None, ctx_path = None, ctx_bot_id = None,
             clean_message = clean_message (extract_context_from_message m) \<rparr>
       \<longleftrightarrow> \<not> has_tag ''SESSION_ID'' (clean_message (extract_context_from_message m))
           \<and> \<not> has_tag ''PATH'' (clean_message (extract_context_from_message m))
           \<and> \<not> has_tag ''BOT_ID'' (clean_message (extract_context_from_message m)))"
proof (intro conjI impI)
  assume wf: "well_formed ps"
  let ?clean = "clean_message (extract_context_from_message (render ps))"
  show c: "?clean = strip (render (tags_removed False ps))"
    by (simp add: extract_context_from_message_def sub_tags_render [OF wf])
  show plain: "CHR ''['' \<notin> set ?clean"
    using tags_removed_plain [OF wf] set_strip [of "render (tags_removed False ps)"]
    unfolding c by blast
  have "strip ?clean = ?clean"
    by (rule clean_message_strip)
  then show "extract_context_from_message ?clean
         = \<lparr> ctx_session_id = None, ctx_path = None, ctx_bot_id = None,
             clean_message = ?clean \<rparr>"
    using plain
    by (simp add: extract_context_from_message_def [of ?clean] tag_value_plain sub_tag_plain)
next
  show "extract_context_from_message (clean_message (extract_context_from_message m))
         = \<lparr> ctx_session_id = None, ctx_path = None, ctx_bot_id = None,
             clean_message = clean_message (extract_context_from_message m) \<rparr>
       \<longleftrightarrow> \<not> has_tag ''SESSION_ID'' (clean_message (extract_context_from_message m))
           \<and> \<not> has_tag ''PATH'' (clean_message (extract_context_from_message m))
           \<and> \<not> has_tag ''BOT_ID'' (clean_message (extract_context_from_message m))"
    by (rule reextraction_fixed_iff)
qed

text \<open>Three tags in a row and in the middle of the text.\<close>

theorem extraction_of_well_formed_message_witness:
  "clean_message (extract_context_from_message ''[SESSION_ID: s1] [BOT_ID: fp01]  book [PATH:e1/x]it'')
     = ''book it''
   \<and> extract_context_from_message ''book it''
     = \<lparr> ctx_session_id = None, ctx_path = None, ctx_bot_id = None,
         clean_message = ''book it'' \<rparr>"
proof -
  let ?ps = "[Tag ''SESSION_ID'' '' s1'', Text CHR '' '', Tag ''BOT_ID'' '' fp01'',
              Text CHR '' '', Text CHR '' '', Text CHR ''b'', Text CHR ''o'', Text CHR ''o'',
              Text CHR ''k'', Text CHR '' '', Tag ''PATH'' ''e1/x'', Text CHR ''i'',
              Text CHR ''t'']"
  have wf: "well_formed ?ps"
    by (simp add: well_formed_def)
  have r: "render ?ps = ''[SESSION_ID: s1] [BOT_ID: fp01]  book [PATH:e1/x]it''"
    by (simp add: render_def tag_prefix_def)
  have t: "strip (render (tags_removed False ?ps)) = ''book it''"
    by code_simp
  from extraction_of_well_formed_message [of ?ps "[]"] wf
  have "clean_message (extract_context_from_message (render ?ps))
          = strip (render (tags_removed False ?ps))
        \<and> extract_context_from_message
              (clean_message (extract_context_from_message (render ?ps)))
            = \<lparr> ctx_session_id = None, ctx_path = None, ctx_bot_id = None,
                clean_message = clean_message (extract_context_from_message (render ?ps)) \<rparr>"
    by blast
  then have c: "clean_message (extract_context_from_message
                   ''[SESSION_ID: s1] [BOT_ID: fp01]  book [PATH:e1/x]it'') = ''book it''"
    and e: "extract_context_from_message
              (clean_message (extract_context_from_message
                 ''[SESSION_ID: s1] [BOT_ID: fp01]  book [PATH:e1/x]it''))
            = \<lparr> ctx_session_id = None, ctx_path = None, ctx_bot_id = None,
                clean_message = clean_message (extract_context_from_message
                  ''[SESSION_ID: s1] [BOT_ID: fp01]  book [PATH:e1/x]it'') \<rparr>"
    unfolding r t by blast+
  from c e [unfolded c] show ?thesis by (intro conjI)
qed

text \<open>
  For claim C4 as first stated, for every message with a tag: deleting the inner tag
  of \<open>[PATH[PATH:a]:b]\<close> puts a new tag together, and extracting again finds it
  and deletes it.
\<close>

theorem reextraction_finds_new_tag_counterexample:
  "has_tag ''PATH'' ''[PATH[PATH:a]:b]''
   \<and> tag_value ''PATH'' ''[PATH[PATH:a]:b]'' = Some ''a''
   \<and> clean_message (extract_context_from_message ''[PATH[PATH:a]:b]'') = ''[PATH:b]''
   \<and> extract_context_from_message ''[PATH:b]''
       = \<lparr> ctx_session_id = None, ctx_path = Some ''b'', ctx_bot_id = None,
           clean_message = [] \<rparr>"
  by code_simp

subsection \<open>Tags with a blank value\<close>













end
